theory Spec2Isabelle
  imports Main
begin

section \<open>Data model\<close>

text \<open>
  The documents of the four MongoDB collections the engine touches, as records.
  An ObjectId is a natural number; a Date is its epoch time in milliseconds.
  A collection is the list of its documents in natural order, so that
  \<open>findOne\<close> and \<open>findOneAndUpdate\<close> pick the first match.

  Fields that no query, guard or update of the modelled routes reads are left out:
  the raffle's product data (name, description, image, price), winner and dates; the
  payment's buyer data, method, amount and proof; the user's name, password and phone.
\<close>

type_synonym objectId = nat
type_synonym date = int

datatype ticket_status = Available | Reserved | Sold

text \<open>backend/models/Ticket.js. The schema has no \<open>soldAt\<close> path, so the
  \<open>soldAt\<close> that the confirm route sets is dropped by the strict schema.\<close>

record ticket =
  ticketNumber :: int
  raffleId :: objectId
  status :: ticket_status
  reservedAt :: "date option"
  userId :: "objectId option"

text \<open>models/Raffle.js. The counters are JavaScript numbers that the routes add to
  and subtract from without a floor (the reject route apart), hence \<open>int\<close>.\<close>

record raffle =
  raffle_id :: objectId
  totalTickets :: int
  soldTickets :: int
  reservedTickets :: int
  active :: bool

datatype payment_status = Pending | Confirmed | Rejected

text \<open>models/Payment.js.\<close>

record payment =
  payment_id :: objectId
  user :: objectId
  raffle :: objectId
  selectedNumbers :: "int list"
  payment_status :: payment_status

record user_doc =
  user_id :: objectId
  email :: string

record state =
  tickets :: "ticket list"
  raffles :: "raffle list"
  payments :: "payment list"
  users :: "user_doc list"

text \<open>What a route answers. Every \<open>throw new Error(msg)\<close> of the payment routes is one
  constructor of \<open>error\<close>; \<open>DuplicateKey\<close> is the driver's error when a saved
  document's \<open>_id\<close> is already in the collection, \<open>ValidationError\<close> is Mongoose's
  when \<open>save\<close> rejects a document. The raffle routes answer 404
  (\<open>NotFound\<close>), 400 \<open>RAFFLE_HAS_SALES\<close> (\<open>HasSales\<close>) or 500 (\<open>ServerError\<close>).\<close>

datatype error =
    UserExists
  | NoActiveRaffle
  | InvalidSelectedNumbersFormat
  | TicketsNotAvailable "int list"
  | PaymentNotFound
  | PaymentNotPending
  | DuplicateKey
  | ValidationError

datatype response =
    ValidationErrors
  | Failure error
  | Created objectId
  | Success
  | NotFound
  | HasSales
  | ServerError

section \<open>Collection primitives\<close>

text \<open>\<open>Model.updateMany(filter, update)\<close>: every matching document is updated.\<close>

definition updateMany :: "('a \<Rightarrow> bool) \<Rightarrow> ('a \<Rightarrow> 'a) \<Rightarrow> 'a list \<Rightarrow> 'a list" where
  "updateMany P f xs = map (\<lambda>x. if P x then f x else x) xs"

text \<open>\<open>updateOne\<close> / \<open>doc.save()\<close> of a loaded document: the first match is updated.\<close>

fun updateOne :: "('a \<Rightarrow> bool) \<Rightarrow> ('a \<Rightarrow> 'a) \<Rightarrow> 'a list \<Rightarrow> 'a list" where
  "updateOne P f [] = []"
| "updateOne P f (x # xs) = (if P x then f x # xs else x # updateOne P f xs)"

text \<open>\<open>Model.findOneAndUpdate(filter, update, {new: true})\<close>: the collection with the
  first match updated, and the updated document, or null when nothing matches.\<close>

definition findOneAndUpdate ::
  "('a \<Rightarrow> bool) \<Rightarrow> ('a \<Rightarrow> 'a) \<Rightarrow> 'a list \<Rightarrow> 'a list \<times> 'a option" where
  "findOneAndUpdate P f xs = (updateOne P f xs, map_option f (find P xs))"

text \<open>\<open>findByIdAndDelete\<close>: the first match is removed.\<close>

fun deleteOne :: "('a \<Rightarrow> bool) \<Rightarrow> 'a list \<Rightarrow> 'a list" where
  "deleteOne P [] = []"
| "deleteOne P (x # xs) = (if P x then xs else x # deleteOne P xs)"

section \<open>POST /api/payments/create-and-pay\<close>

text \<open>
  The request after \<open>express-validator\<close> and \<open>JSON.parse\<close> have run:
  \<open>req_validationErrors\<close> is \<open>!errors.isEmpty()\<close>; \<open>req_selectedNumbers\<close> is the
  parsed \<open>selectedNumbers\<close>, \<open>None\<close> when parsing throws or the value is not an
  array; its elements are taken to be integers. The ObjectIds that Mongoose generates
  for the new user and payment are inputs. \<open>req_userSaves\<close> says whether
  \<open>user.save\<close> passes the User schema (models/User.js is not among the sources);
  \<open>req_paymentSaves\<close> whether \<open>payment.save\<close> passes the validators of
  models/Payment.js on the buyer's data (a proof of payment was uploaded, the method is
  one of the three of the enum, the required strings are not blank).
\<close>

record reserve_request =
  req_validationErrors :: bool
  req_email :: string
  req_selectedNumbers :: "int list option"
  req_newUserId :: objectId
  req_newPaymentId :: objectId
  req_userSaves :: bool
  req_paymentSaves :: bool

text \<open>The \<open>for (const ticketNumber of tickets)\<close> loop: each number is claimed by a
  conditional update on (ticketNumber, status available, raffleId); a number whose claim
  finds no document is pushed onto \<open>unavailableTickets\<close>, and the loop goes on.\<close>

fun reserve_loop ::
  "objectId \<Rightarrow> objectId \<Rightarrow> date \<Rightarrow> int list \<Rightarrow> ticket list \<Rightarrow> int list \<Rightarrow> ticket list \<times> int list" where
  "reserve_loop rid uid now [] ts unavailableTickets = (ts, unavailableTickets)"
| "reserve_loop rid uid now (n # ns) ts unavailableTickets =
     (case findOneAndUpdate
             (\<lambda>t. ticketNumber t = n \<and> status t = Available \<and> raffleId t = rid)
             (\<lambda>t. t\<lparr>status := Reserved, reservedAt := Some now, userId := Some uid\<rparr>) ts of
        (ts', None) \<Rightarrow> reserve_loop rid uid now ns ts' (unavailableTickets @ [n])
      | (ts', Some _) \<Rightarrow> reserve_loop rid uid now ns ts' unavailableTickets)"

text \<open>The route. It runs in one transaction: every \<open>throw\<close> reaches the \<open>catch\<close>,
  which aborts it, so the state returned with a \<open>Failure\<close> is the state before.\<close>

definition create_and_pay :: "state \<Rightarrow> reserve_request \<Rightarrow> date \<Rightarrow> state \<times> response" where
  "create_and_pay s req now =
    (if req_validationErrors req then (s, ValidationErrors)
     else case find (\<lambda>u. email u = req_email req) (users s) of
       Some _ \<Rightarrow> (s, Failure UserExists)
     | None \<Rightarrow>
      (case find active (raffles s) of
         None \<Rightarrow> (s, Failure NoActiveRaffle)
       | Some activeRaffle \<Rightarrow>
          if \<not> req_userSaves req then (s, Failure ValidationError)
          else if find (\<lambda>u. user_id u = req_newUserId req) (users s) \<noteq> None
          then (s, Failure DuplicateKey)
          else
           (case req_selectedNumbers req of
              None \<Rightarrow> (s, Failure InvalidSelectedNumbersFormat)
            | Some nums \<Rightarrow>
               (case reserve_loop (raffle_id activeRaffle) (req_newUserId req) now nums (tickets s) [] of
                  (ts, unavailableTickets) \<Rightarrow>
                   if length unavailableTickets > 0
                   then (s, Failure (TicketsNotAvailable unavailableTickets))
                   else if \<not> req_paymentSaves req then (s, Failure ValidationError)
                   else if find (\<lambda>p. payment_id p = req_newPaymentId req) (payments s) \<noteq> None
                   then (s, Failure DuplicateKey)
                   else
                     (\<lparr>tickets = ts,
                       raffles = updateOne (\<lambda>r. raffle_id r = raffle_id activeRaffle)
                                   (\<lambda>r. r\<lparr>reservedTickets :=
                                            reservedTickets activeRaffle + int (length nums)\<rparr>)
                                   (raffles s),
                       payments = payments s @
                                   [\<lparr>payment_id = req_newPaymentId req,
                                     user = req_newUserId req,
                                     raffle = raffle_id activeRaffle,
                                     selectedNumbers = nums,
                                     payment_status = Pending\<rparr>],
                       users = users s @
                                   [\<lparr>user_id = req_newUserId req, email = req_email req\<rparr>]\<rparr>,
                      Created (req_newPaymentId req))))))"

section \<open>POST /api/payments/:id/confirm and /:id/reject\<close>

text \<open>Both routes run in a transaction that the \<open>catch\<close> aborts. The ticket filter is
  \<open>{ticketNumber: {$in: payment.selectedNumbers}, status: 'reserved'}\<close>, as written:
  it names neither the raffle nor the owner. The counters move by
  \<open>payment.selectedNumbers.length\<close>.\<close>

definition confirm :: "state \<Rightarrow> objectId \<Rightarrow> state \<times> response" where
  "confirm s pid =
    (case find (\<lambda>p. payment_id p = pid) (payments s) of
       None \<Rightarrow> (s, Failure PaymentNotFound)
     | Some payment \<Rightarrow>
        if payment_status payment \<noteq> Pending then (s, Failure PaymentNotPending)
        else
          (\<lparr>tickets = updateMany
                        (\<lambda>t. ticketNumber t \<in> set (selectedNumbers payment) \<and> status t = Reserved)
                        (\<lambda>t. t\<lparr>status := Sold\<rparr>) (tickets s),
            raffles =
              (case find (\<lambda>r. raffle_id r = raffle payment) (raffles s) of
                 None \<Rightarrow> raffles s
               | Some r \<Rightarrow>
                  updateOne (\<lambda>x. raffle_id x = raffle payment)
                    (\<lambda>x. x\<lparr>soldTickets := soldTickets r + int (length (selectedNumbers payment)),
                           reservedTickets :=
                             reservedTickets r - int (length (selectedNumbers payment))\<rparr>)
                    (raffles s)),
            payments = updateOne (\<lambda>p. payment_id p = pid)
                         (\<lambda>p. p\<lparr>payment_status := Confirmed\<rparr>) (payments s),
            users = users s\<rparr>,
           Success))"

definition reject :: "state \<Rightarrow> objectId \<Rightarrow> state \<times> response" where
  "reject s pid =
    (case find (\<lambda>p. payment_id p = pid) (payments s) of
       None \<Rightarrow> (s, Failure PaymentNotFound)
     | Some payment \<Rightarrow>
        if payment_status payment \<noteq> Pending then (s, Failure PaymentNotPending)
        else
          (\<lparr>tickets = updateMany
                        (\<lambda>t. ticketNumber t \<in> set (selectedNumbers payment) \<and> status t = Reserved)
                        (\<lambda>t. t\<lparr>status := Available, reservedAt := None, userId := None\<rparr>)
                        (tickets s),
            raffles =
              (case find (\<lambda>r. raffle_id r = raffle payment) (raffles s) of
                 None \<Rightarrow> raffles s
               | Some r \<Rightarrow>
                  updateOne (\<lambda>x. raffle_id x = raffle payment)
                    (\<lambda>x. x\<lparr>reservedTickets :=
                             max 0 (reservedTickets r - int (length (selectedNumbers payment)))\<rparr>)
                    (raffles s)),
            payments = updateOne (\<lambda>p. payment_id p = pid)
                         (\<lambda>p. p\<lparr>payment_status := Rejected\<rparr>) (payments s),
            users = users s\<rparr>,
           Success))"

section \<open>The expired-ticket release job\<close>

text \<open>server.js, \<open>cron.schedule('*/5 * * * *', ...)\<close>. The cutoff is 24 hours before
  the run. \<open>Ticket.find\<close> selects the reserved tickets whose \<open>reservedAt\<close> is before
  the cutoff (a null \<open>reservedAt\<close> does not match \<open>$lt\<close>); when there are any,
  \<open>Ticket.updateMany\<close> resets every ticket whose \<open>ticketNumber\<close> is among theirs. The
  job runs outside any transaction, reads and writes no raffle, and answers nobody.\<close>

definition ttl :: int where
  "ttl = 24 * 60 * 60 * 1000"

definition expired :: "date \<Rightarrow> ticket \<Rightarrow> bool" where
  "expired cutoff t =
     (status t = Reserved \<and> (case reservedAt t of None \<Rightarrow> False | Some d \<Rightarrow> d < cutoff))"

definition sweep :: "state \<Rightarrow> date \<Rightarrow> state" where
  "sweep s now =
    (let cutoff = now - ttl;
         expiredTickets = filter (expired cutoff) (tickets s)
     in if length expiredTickets > 0
        then
          (let ticketNumbers = map ticketNumber expiredTickets
           in s\<lparr>tickets := updateMany (\<lambda>t. ticketNumber t \<in> set ticketNumbers)
                              (\<lambda>t. t\<lparr>status := Available, reservedAt := None, userId := None\<rparr>)
                              (tickets s)\<rparr>)
        else s)"

section \<open>The raffle routes\<close>

text \<open>src/unnamed/part_001 (routes/raffle.js); src/unnamed/part_002 is another copy of
  the same routes, which treat \<open>active\<close> the same way.

  POST /create. The request after parsing: \<open>cr_fieldsPresent\<close> is the truthiness of
  productName, description, price, totalTickets and the uploaded file together;
  \<open>cr_priceValid\<close> is \<open>!(isNaN(parsedPrice) || parsedPrice <= 0)\<close> (a float, of which
  nothing else is used here); \<open>cr_parsedTotalTickets\<close> is \<open>parseInt(totalTickets)\<close>,
  \<open>None\<close> for NaN. The route runs in a transaction; every throw answers 500.\<close>

record create_request =
  cr_fieldsPresent :: bool
  cr_priceValid :: bool
  cr_parsedTotalTickets :: "int option"
  cr_newRaffleId :: objectId

definition new_ticket :: "objectId \<Rightarrow> int \<Rightarrow> ticket" where
  "new_ticket rid n =
     \<lparr>ticketNumber = n, raffleId = rid, status = Available, reservedAt = None, userId = None\<rparr>"

definition create_raffle :: "state \<Rightarrow> create_request \<Rightarrow> state \<times> response" where
  "create_raffle s req =
    (if \<not> cr_fieldsPresent req then (s, ServerError)
     else if \<not> cr_priceValid req then (s, ServerError)
     else case cr_parsedTotalTickets req of
       None \<Rightarrow> (s, ServerError)
     | Some n \<Rightarrow>
        if n \<le> 0 then (s, ServerError)
        else if find (\<lambda>r. raffle_id r = cr_newRaffleId req) (raffles s) \<noteq> None
        then (s, ServerError)
        else
          (s\<lparr>raffles := updateMany (\<lambda>_. True) (\<lambda>r. r\<lparr>active := False\<rparr>) (raffles s) @
                          [\<lparr>raffle_id = cr_newRaffleId req, totalTickets = n,
                            soldTickets = 0, reservedTickets = 0, active = True\<rparr>],
             tickets := tickets s @ map (new_ticket (cr_newRaffleId req)) [1..n]\<rparr>,
           Created (cr_newRaffleId req)))"

text \<open>PUT /:id. \<open>req.body.active\<close> is a JSON value, or a string of a multipart form.
  \<open>if (updates.active)\<close> tests its JavaScript truthiness; \<open>Object.assign\<close> followed by
  \<open>raffle.save()\<close> stores what Mongoose casts it to for the Boolean path: true, 'true',
  1, '1', 'yes' are true; false, 'false', 0, '0', 'no' are false; null is stored as
  null, which no \<open>{active: true}\<close> query matches (\<open>False\<close> here); anything else is a
  cast error that makes \<open>save\<close> reject. \<open>upd_othersValid\<close> says whether the other
  updated fields pass their casts. The route has no transaction: when \<open>save\<close> rejects,
  the other raffles stay deactivated.\<close>

datatype js_val = JNull | JBool bool | JNumber int | JString string

fun truthy :: "js_val \<Rightarrow> bool" where
  "truthy JNull = False"
| "truthy (JBool b) = b"
| "truthy (JNumber n) = (n \<noteq> 0)"
| "truthy (JString str) = (str \<noteq> [])"

fun castBoolean :: "js_val \<Rightarrow> bool option" where
  "castBoolean JNull = Some False"
| "castBoolean (JBool b) = Some b"
| "castBoolean (JNumber n) = (if n = 1 then Some True else if n = 0 then Some False else None)"
| "castBoolean (JString str) =
     (if str = ''true'' \<or> str = ''1'' \<or> str = ''yes'' then Some True
      else if str = ''false'' \<or> str = ''0'' \<or> str = ''no'' then Some False
      else None)"

record update_request =
  upd_active :: "js_val option"
  upd_othersValid :: bool

definition update_raffle :: "state \<Rightarrow> objectId \<Rightarrow> update_request \<Rightarrow> state \<times> response" where
  "update_raffle s rid upd =
    (case find (\<lambda>r. raffle_id r = rid) (raffles s) of
       None \<Rightarrow> (s, NotFound)
     | Some r \<Rightarrow>
        (let rs = (if (case upd_active upd of None \<Rightarrow> False | Some v \<Rightarrow> truthy v)
                   then updateMany (\<lambda>x. raffle_id x \<noteq> raffle_id r)
                          (\<lambda>x. x\<lparr>active := False\<rparr>) (raffles s)
                   else raffles s)
         in if \<not> upd_othersValid upd then (s\<lparr>raffles := rs\<rparr>, ServerError)
            else case upd_active upd of
              None \<Rightarrow> (s\<lparr>raffles := rs\<rparr>, Success)
            | Some v \<Rightarrow>
               (case castBoolean v of
                  None \<Rightarrow> (s\<lparr>raffles := rs\<rparr>, ServerError)
                | Some b \<Rightarrow>
                   (s\<lparr>raffles := updateOne (\<lambda>x. raffle_id x = raffle_id r)
                                   (\<lambda>x. x\<lparr>active := b\<rparr>) rs\<rparr>,
                    Success))))"

text \<open>DELETE /:id.\<close>

definition delete_raffle :: "state \<Rightarrow> objectId \<Rightarrow> state \<times> response" where
  "delete_raffle s rid =
    (case find (\<lambda>r. raffle_id r = rid) (raffles s) of
       None \<Rightarrow> (s, NotFound)
     | Some r \<Rightarrow>
        if length (filter (\<lambda>t. raffleId t = raffle_id r \<and> status t = Sold) (tickets s)) > 0
        then (s, HasSales)
        else
          (s\<lparr>tickets := filter (\<lambda>t. raffleId t \<noteq> raffle_id r) (tickets s),
             raffles := deleteOne (\<lambda>x. raffle_id x = rid) (raffles s)\<rparr>,
           Success))"

section \<open>The routes without a transaction, write by write\<close>

text \<open>PUT /:id opens no session: \<open>Raffle.findById\<close>, \<open>Raffle.updateMany\<close> and
  \<open>raffle.save()\<close> are three awaited operations, and another request can commit between
  any two of them. \<open>put_deactivate\<close> is the \<open>updateMany\<close>, for the document \<open>r\<close> that
  \<open>findById\<close> returned. \<open>put_save\<close> is \<open>Object.assign\<close> and \<open>save\<close> on that
  document: Mongoose sends the paths whose value differs from the loaded one, so
  \<open>active\<close> is written when its cast differs from \<open>active r\<close>, and nothing else of the
  loaded document is written back; a document deleted in the meantime is not saved.\<close>

definition put_deactivate :: "state \<Rightarrow> raffle \<Rightarrow> update_request \<Rightarrow> state" where
  "put_deactivate s r upd =
     (if (case upd_active upd of None \<Rightarrow> False | Some v \<Rightarrow> truthy v)
      then s\<lparr>raffles := updateMany (\<lambda>x. raffle_id x \<noteq> raffle_id r)
                           (\<lambda>x. x\<lparr>active := False\<rparr>) (raffles s)\<rparr>
      else s)"

definition put_save :: "state \<Rightarrow> raffle \<Rightarrow> update_request \<Rightarrow> state \<times> response" where
  "put_save s r upd =
     (if find (\<lambda>x. raffle_id x = raffle_id r) (raffles s) = None then (s, ServerError)
      else if \<not> upd_othersValid upd then (s, ServerError)
      else case upd_active upd of
        None \<Rightarrow> (s, Success)
      | Some v \<Rightarrow>
         (case castBoolean v of
            None \<Rightarrow> (s, ServerError)
          | Some b \<Rightarrow>
             if b = active r then (s, Success)
             else (s\<lparr>raffles := updateOne (\<lambda>x. raffle_id x = raffle_id r)
                                  (\<lambda>x. x\<lparr>active := b\<rparr>) (raffles s)\<rparr>,
                   Success)))"

text \<open>The job: \<open>Ticket.find\<close>, then, when it found tickets, \<open>Ticket.updateMany\<close> on
  their numbers.\<close>

definition sweep_find :: "state \<Rightarrow> date \<Rightarrow> int list" where
  "sweep_find s now = map ticketNumber (filter (expired (now - ttl)) (tickets s))"

definition sweep_update :: "state \<Rightarrow> int list \<Rightarrow> state" where
  "sweep_update s ticketNumbers =
     s\<lparr>tickets := updateMany (\<lambda>t. ticketNumber t \<in> set ticketNumbers)
                     (\<lambda>t. t\<lparr>status := Available, reservedAt := None, userId := None\<rparr>)
                     (tickets s)\<rparr>"

text \<open>DELETE /:id starts a transaction, but \<open>Raffle.findById\<close> and
  \<open>Ticket.countDocuments\<close> are called without the session: they read the database as it
  is when they run. Only the two deletions are in the transaction.\<close>

definition delete_count :: "state \<Rightarrow> raffle \<Rightarrow> nat" where
  "delete_count s r =
     length (filter (\<lambda>t. raffleId t = raffle_id r \<and> status t = Sold) (tickets s))"

definition delete_write :: "state \<Rightarrow> raffle \<Rightarrow> state" where
  "delete_write s r =
     s\<lparr>tickets := filter (\<lambda>t. raffleId t \<noteq> raffle_id r) (tickets s),
       raffles := deleteOne (\<lambda>x. raffle_id x = raffle_id r) (raffles s)\<rparr>"

section \<open>Reachable states\<close>

text \<open>The database starts empty. In a sequential run every route call and every run of
  the job finishes before the next begins.\<close>

definition init_state :: state where
  "init_state = \<lparr>tickets = [], raffles = [], payments = [], users = []\<rparr>"

inductive sequential :: "state \<Rightarrow> bool" where
  r_init: "sequential init_state"
| r_reserve: "sequential s \<Longrightarrow> sequential (fst (create_and_pay s req now))"
| r_confirm: "sequential s \<Longrightarrow> sequential (fst (confirm s pid))"
| r_reject: "sequential s \<Longrightarrow> sequential (fst (reject s pid))"
| r_sweep: "sequential s \<Longrightarrow> sequential (sweep s now)"
| r_create: "sequential s \<Longrightarrow> sequential (fst (create_raffle s creq))"
| r_update: "sequential s \<Longrightarrow> sequential (fst (update_raffle s rid upd))"
| r_delete: "sequential s \<Longrightarrow> sequential (fst (delete_raffle s rid))"

text \<open>In general the calls interleave. A route that runs in a transaction
  (create-and-pay, confirm, reject, POST /create) takes effect at once, when it commits.
  A PUT, a run of the job and a DELETE take effect write by write; between their
  operations they are in flight, holding what they have read: the raffle a PUT or a
  DELETE loaded, the ticket numbers the job found. A state is reachable when some
  interleaving leads to it.\<close>

datatype inflight =
    PutLoaded raffle update_request
  | PutDeactivated raffle update_request
  | SweepFound "int list"
  | DeleteFound raffle
  | DeleteCounted raffle

inductive run :: "state \<Rightarrow> inflight list \<Rightarrow> bool" where
  run_init: "run init_state []"
| run_reserve: "run s fs \<Longrightarrow> run (fst (create_and_pay s req now)) fs"
| run_confirm: "run s fs \<Longrightarrow> run (fst (confirm s pid)) fs"
| run_reject: "run s fs \<Longrightarrow> run (fst (reject s pid)) fs"
| run_create: "run s fs \<Longrightarrow> run (fst (create_raffle s creq)) fs"
| run_put_find:
    "run s fs \<Longrightarrow> find (\<lambda>x. raffle_id x = rid) (raffles s) = Some r \<Longrightarrow>
     run s (PutLoaded r upd # fs)"
| run_put_deactivate:
    "run s fs \<Longrightarrow> PutLoaded r upd \<in> set fs \<Longrightarrow>
     run (put_deactivate s r upd) (PutDeactivated r upd # remove1 (PutLoaded r upd) fs)"
| run_put_save:
    "run s fs \<Longrightarrow> PutDeactivated r upd \<in> set fs \<Longrightarrow>
     run (fst (put_save s r upd)) (remove1 (PutDeactivated r upd) fs)"
| run_sweep_find:
    "run s fs \<Longrightarrow> sweep_find s now \<noteq> [] \<Longrightarrow> run s (SweepFound (sweep_find s now) # fs)"
| run_sweep_update:
    "run s fs \<Longrightarrow> SweepFound ticketNumbers \<in> set fs \<Longrightarrow>
     run (sweep_update s ticketNumbers) (remove1 (SweepFound ticketNumbers) fs)"
| run_delete_find:
    "run s fs \<Longrightarrow> find (\<lambda>x. raffle_id x = rid) (raffles s) = Some r \<Longrightarrow>
     run s (DeleteFound r # fs)"
| run_delete_count:
    "run s fs \<Longrightarrow> DeleteFound r \<in> set fs \<Longrightarrow> delete_count s r = 0 \<Longrightarrow>
     run s (DeleteCounted r # remove1 (DeleteFound r) fs)"
| run_delete_write:
    "run s fs \<Longrightarrow> DeleteCounted r \<in> set fs \<Longrightarrow>
     run (delete_write s r) (remove1 (DeleteCounted r) fs)"

definition reachable :: "state \<Rightarrow> bool" where
  "reachable s = (\<exists>fs. run s fs)"

section \<open>Concrete runs\<close>

text \<open>Requests and states of small runs of the routes, used to evaluate them: one
  raffle of three tickets, created on the empty database, and a first buyer who
  reserves ticket 1 at time 0.\<close>

definition hour :: int where
  "hour = 60 * 60 * 1000"

definition mk_create :: "objectId \<Rightarrow> int \<Rightarrow> create_request" where
  "mk_create rid n =
     \<lparr>cr_fieldsPresent = True, cr_priceValid = True,
      cr_parsedTotalTickets = Some n, cr_newRaffleId = rid\<rparr>"

definition mk_reserve :: "string \<Rightarrow> int list \<Rightarrow> objectId \<Rightarrow> objectId \<Rightarrow> reserve_request" where
  "mk_reserve mail nums uid pid =
     \<lparr>req_validationErrors = False, req_email = mail,
      req_selectedNumbers = Some nums, req_newUserId = uid, req_newPaymentId = pid,
      req_userSaves = True, req_paymentSaves = True\<rparr>"

definition status_of :: "state \<Rightarrow> objectId \<Rightarrow> int \<Rightarrow> ticket_status option" where
  "status_of s rid n =
     map_option status (find (\<lambda>t. raffleId t = rid \<and> ticketNumber t = n) (tickets s))"

definition sc_a :: state where
  "sc_a = fst (create_raffle init_state (mk_create 1 3))"

definition sc_a1 :: state where
  "sc_a1 = fst (create_and_pay sc_a (mk_reserve ''a@x.io'' [1] 10 100) 0)"

definition sc_a2 :: state where
  "sc_a2 = fst (confirm sc_a1 100)"

text \<open>A second raffle, created while the first buyer's payment is still pending; a
  second buyer reserves its ticket 1 an hour after the first reservation.\<close>

definition sc_b :: state where
  "sc_b = fst (create_raffle sc_a1 (mk_create 2 3))"

definition sc_b1 :: state where
  "sc_b1 = fst (create_and_pay sc_b (mk_reserve ''b@x.io'' [1] 11 101) hour)"

text \<open>The same, after the first buyer's payment was confirmed; then the job runs at
  hour 26, raffle 1 is activated again, and a third buyer reserves its ticket 1 and is
  confirmed.\<close>

definition sc_c :: state where
  "sc_c = fst (create_raffle sc_a2 (mk_create 2 3))"

definition sc_c1 :: state where
  "sc_c1 = fst (create_and_pay sc_c (mk_reserve ''b@x.io'' [1] 11 101) hour)"

definition sc_c2 :: state where
  "sc_c2 = sweep sc_c1 (26 * hour)"

definition sc_c3 :: state where
  "sc_c3 = fst (update_raffle sc_c2 1 \<lparr>upd_active = Some (JBool True), upd_othersValid = True\<rparr>)"

definition sc_c4 :: state where
  "sc_c4 = fst (create_and_pay sc_c3 (mk_reserve ''c@x.io'' [1] 12 102) (27 * hour))"

definition sc_c5 :: state where
  "sc_c5 = fst (confirm sc_c4 102)"

text \<open>An interleaved run from the second raffle's creation: a PUT that activates raffle 1
  has loaded it (inactive) and deactivates the others; a POST /create of raffle 3
  commits; the PUT saves.\<close>

definition sc_put :: update_request where
  "sc_put = \<lparr>upd_active = Some (JBool True), upd_othersValid = True\<rparr>"

definition sc_r1 :: raffle where
  "sc_r1 = \<lparr>raffle_id = 1, totalTickets = 3, soldTickets = 0, reservedTickets = 1, active = False\<rparr>"

definition sc_d1 :: state where
  "sc_d1 = put_deactivate sc_b sc_r1 sc_put"

definition sc_d2 :: state where
  "sc_d2 = fst (create_raffle sc_d1 (mk_create 3 3))"

definition sc_d3 :: state where
  "sc_d3 = fst (put_save sc_d2 sc_r1 sc_put)"

section \<open>Predicates on states\<close>

text \<open>The true counts behind a raffle's counters, and their agreement for every raffle.\<close>

definition count_status :: "state \<Rightarrow> objectId \<Rightarrow> ticket_status \<Rightarrow> int" where
  "count_status s rid st =
     int (length (filter (\<lambda>t. raffleId t = rid \<and> status t = st) (tickets s)))"

definition counters_consistent :: "state \<Rightarrow> bool" where
  "counters_consistent s =
     list_all (\<lambda>r. reservedTickets r = count_status s (raffle_id r) Reserved \<and>
                    soldTickets r = count_status s (raffle_id r) Sold) (raffles s)"

definition owner_of :: "state \<Rightarrow> objectId \<Rightarrow> int \<Rightarrow> objectId option" where
  "owner_of s rid n =
     (case find (\<lambda>t. raffleId t = rid \<and> ticketNumber t = n) (tickets s) of
        None \<Rightarrow> None
      | Some t \<Rightarrow> userId t)"

text \<open>The requested numbers whose conditional claim fails, from the tickets before the
  call: the claim of the number at position \<open>i\<close> finds no ticket when the raffle has no
  more available tickets carrying that number than earlier positions of the same
  request have asked for (none at all, or all taken by the same call).\<close>

definition available_count :: "objectId \<Rightarrow> ticket list \<Rightarrow> int \<Rightarrow> nat" where
  "available_count rid ts n =
     length (filter (\<lambda>t. ticketNumber t = n \<and> status t = Available \<and> raffleId t = rid) ts)"

definition claim_fails :: "objectId \<Rightarrow> ticket list \<Rightarrow> int list \<Rightarrow> nat \<Rightarrow> bool" where
  "claim_fails rid ts nums i =
     (available_count rid ts (nums ! i) \<le> count_list (take i nums) (nums ! i))"

definition unavailable_numbers :: "objectId \<Rightarrow> ticket list \<Rightarrow> int list \<Rightarrow> int list" where
  "unavailable_numbers rid ts nums =
     map (\<lambda>i. nums ! i) (filter (claim_fails rid ts nums) [0..<length nums])"

text \<open>Invariants: of the sequential runs, that raffle ids are unique and at most one
  raffle is active; of all runs, that raffle ids are unique and every ticket belongs to
  a stored raffle and is numbered within it.\<close>

definition raffle_inv :: "raffle list \<Rightarrow> bool" where
  "raffle_inv rs = (distinct (map raffle_id rs) \<and> length (filter active rs) \<le> 1)"

definition in_range :: "raffle list \<Rightarrow> ticket \<Rightarrow> bool" where
  "in_range rs t =
     list_ex (\<lambda>r. raffle_id r = raffleId t \<and> 1 \<le> ticketNumber t \<and>
                   ticketNumber t \<le> totalTickets r) rs"

definition ticket_inv :: "state \<Rightarrow> bool" where
  "ticket_inv s = list_all (in_range (raffles s)) (tickets s)"

definition tkeys :: "ticket list \<Rightarrow> (objectId \<times> int) list" where
  "tkeys ts = map (\<lambda>t. (raffleId t, ticketNumber t)) ts"

definition rkeys :: "raffle list \<Rightarrow> (objectId \<times> int) list" where
  "rkeys rs = map (\<lambda>r. (raffle_id r, totalTickets r)) rs"

definition db_inv :: "state \<Rightarrow> bool" where
  "db_inv s = (distinct (map raffle_id (raffles s)) \<and> ticket_inv s)"


section \<open>Facts about the collection primitives\<close>


lemma find_updateOne_other:
  assumes "\<And>x. Q (f x) = False"
  shows "find Q xs = None \<Longrightarrow> find Q (updateOne P f xs) = None"
  using assms by (induction xs) auto

section \<open>The reservation loop\<close>

text \<open>One turn of the loop: the claim is attempted, and the number is recorded as
  unavailable exactly when no available ticket of the raffle carries it.\<close>

lemma reserve_loop_step:
  "reserve_loop rid uid now (m # ns) ts acc =
     reserve_loop rid uid now ns
       (updateOne (\<lambda>t. ticketNumber t = m \<and> status t = Available \<and> raffleId t = rid)
          (\<lambda>t. t\<lparr>status := Reserved, reservedAt := Some now, userId := Some uid\<rparr>) ts)
       (if find (\<lambda>t. ticketNumber t = m \<and> status t = Available \<and> raffleId t = rid) ts = None
        then acc @ [m] else acc)"
  by (auto simp: findOneAndUpdate_def split: option.splits)

lemma reserve_loop_acc_subset:
  "set acc \<subseteq> set (snd (reserve_loop rid uid now ns ts acc))"
proof (induction ns arbitrary: ts acc)
  case Nil
  show ?case by simp
next
  case (Cons m ns)
  show ?case
    unfolding reserve_loop_step
    by (rule subset_trans[OF _ Cons.IH]) auto
qed

lemma reserve_loop_names:
  "set (snd (reserve_loop rid uid now ns ts acc)) \<subseteq> set acc \<union> set ns"
proof (induction ns arbitrary: ts acc)
  case Nil
  show ?case by simp
next
  case (Cons m ns)
  show ?case
    unfolding reserve_loop_step
    by (rule subset_trans[OF Cons.IH]) auto
qed

text \<open>A number that no available ticket of the raffle carries when the loop starts is
  among the unavailable numbers when it ends: a claim only takes tickets away.\<close>

lemma reserve_loop_unavailable:
  assumes "n \<in> set ns"
    and "find (\<lambda>t. ticketNumber t = n \<and> status t = Available \<and> raffleId t = rid) ts = None"
  shows "n \<in> set (snd (reserve_loop rid uid now ns ts acc))"
  using assms
proof (induction ns arbitrary: ts acc)
  case Nil
  then show ?case by simp
next
  case (Cons m ns)
  let ?P = "\<lambda>k t. ticketNumber t = k \<and> status t = Available \<and> raffleId t = rid"
  let ?f = "\<lambda>t. t\<lparr>status := Reserved, reservedAt := Some now, userId := Some uid\<rparr>"
  have keep: "find (?P n) (updateOne (?P m) ?f ts) = None"
    using Cons.prems(2) by (intro find_updateOne_other) simp_all
  show ?case
  proof (cases "n = m")
    case True
    then have "find (?P m) ts = None" using Cons.prems(2) by simp
    then have "reserve_loop rid uid now (m # ns) ts acc =
               reserve_loop rid uid now ns (updateOne (?P m) ?f ts) (acc @ [m])"
      by (simp add: findOneAndUpdate_def)
    moreover have "m \<in> set (snd (reserve_loop rid uid now ns (updateOne (?P m) ?f ts) (acc @ [m])))"
      using reserve_loop_acc_subset[of "acc @ [m]"] by auto
    ultimately show ?thesis using True by simp
  next
    case False
    then have "n \<in> set ns" using Cons.prems(1) by simp
    from Cons.IH[OF this keep] show ?thesis
      by (auto simp: findOneAndUpdate_def split: option.splits)
  qed
qed

text \<open>When the loop is reached and leaves a non-empty \<open>unavailableTickets\<close>, the route
  throws: the transaction is aborted and the error carries the list.\<close>

lemma create_and_pay_fails:
  assumes valid: "\<not> req_validationErrors req"
    and newmail: "find (\<lambda>u. email u = req_email req) (users s) = None"
    and act: "find active (raffles s) = Some activeRaffle"
    and saves: "req_userSaves req"
    and freshid: "find (\<lambda>u. user_id u = req_newUserId req) (users s) = None"
    and parsed: "req_selectedNumbers req = Some nums"
    and loop: "snd (reserve_loop (raffle_id activeRaffle) (req_newUserId req) now nums (tickets s) []) = u"
    and some: "u \<noteq> []"
  shows "create_and_pay s req now = (s, Failure (TicketsNotAvailable u))"
proof -
  obtain ts where
    "reserve_loop (raffle_id activeRaffle) (req_newUserId req) now nums (tickets s) [] = (ts, u)"
    using loop
    by (cases "reserve_loop (raffle_id activeRaffle) (req_newUserId req) now nums (tickets s) []")
       simp
  then show ?thesis
    using valid newmail act saves freshid parsed some by (simp add: create_and_pay_def)
qed

section \<open>All-or-nothing reservation\<close>

text \<open>The list the loop leaves is exactly \<open>unavailable_numbers\<close>: \<open>claim_fails\<close> at
  position \<open>i\<close> says that the \<open>findOneAndUpdate\<close> of the loop's turn \<open>i\<close> returns null
  (\<open>claim_fails_loop\<close>), and the loop collects these numbers in request order
  (\<open>reserve_loop_exact\<close>). When no number is requested twice, they are the requested
  numbers with no available ticket before the call (\<open>unavailable_numbers_distinct\<close>).\<close>

lemma find_None_available_count:
  "find (\<lambda>t. ticketNumber t = n \<and> status t = Available \<and> raffleId t = rid) ts = None
     \<longleftrightarrow> available_count rid ts n = 0"
  by (auto simp: available_count_def find_None_iff filter_empty_conv)

lemma available_count_updateOne:
  "available_count rid
     (updateOne (\<lambda>t. ticketNumber t = m \<and> status t = Available \<and> raffleId t = rid)
        (\<lambda>t. t\<lparr>status := Reserved, reservedAt := Some now, userId := Some uid\<rparr>) ts) n =
   available_count rid ts n - (if n = m then 1 else 0)"
proof (induction ts)
  case Nil
  show ?case by (simp add: available_count_def)
next
  case (Cons t ts)
  show ?case
  proof (cases "ticketNumber t = m \<and> status t = Available \<and> raffleId t = rid")
    case True
    then show ?thesis by (auto simp: available_count_def)
  next
    case False
    then show ?thesis using Cons.IH by (auto simp: available_count_def)
  qed
qed

lemma available_count_reserve_loop:
  "available_count rid (fst (reserve_loop rid uid now pre ts acc)) n =
   available_count rid ts n - count_list pre n"
proof (induction pre arbitrary: ts acc)
  case Nil
  show ?case by simp
next
  case (Cons m pre)
  show ?case
    unfolding reserve_loop_step
    by (simp add: Cons.IH available_count_updateOne)
qed

lemma claim_fails_loop:
  "claim_fails rid ts nums i \<longleftrightarrow>
     find (\<lambda>t. ticketNumber t = nums ! i \<and> status t = Available \<and> raffleId t = rid)
       (fst (reserve_loop rid uid now (take i nums) ts [])) = None"
  by (simp add: find_None_available_count available_count_reserve_loop claim_fails_def)

text \<open>A number with no available ticket before the call fails wherever it stands.\<close>

lemma claim_fails_unavailable:
  "find (\<lambda>t. ticketNumber t = nums ! i \<and> status t = Available \<and> raffleId t = rid) ts = None
     \<Longrightarrow> claim_fails rid ts nums i"
  by (simp add: claim_fails_def find_None_available_count)

lemma unavailable_numbers_Cons:
  "unavailable_numbers rid ts (m # ns) =
     (if available_count rid ts m = 0 then [m] else []) @
     unavailable_numbers rid
       (updateOne (\<lambda>t. ticketNumber t = m \<and> status t = Available \<and> raffleId t = rid)
          (\<lambda>t. t\<lparr>status := Reserved, reservedAt := Some now, userId := Some uid\<rparr>) ts) ns"
proof -
  let ?ts' = "updateOne (\<lambda>t. ticketNumber t = m \<and> status t = Available \<and> raffleId t = rid)
          (\<lambda>t. t\<lparr>status := Reserved, reservedAt := Some now, userId := Some uid\<rparr>) ts"
  have upt: "[0..<length (m # ns)] = 0 # map Suc [0..<length ns]"
    by (simp add: upt_conv_Cons map_Suc_upt del: upt_Suc)
  have zero: "claim_fails rid ts (m # ns) 0 \<longleftrightarrow> available_count rid ts m = 0"
    by (simp add: claim_fails_def)
  have step: "claim_fails rid ts (m # ns) (Suc i) \<longleftrightarrow> claim_fails rid ?ts' ns i" for i
    by (auto simp: claim_fails_def available_count_updateOne)
  have "filter (claim_fails rid ts (m # ns)) (map Suc [0..<length ns]) =
        map Suc (filter (claim_fails rid ?ts' ns) [0..<length ns])"
    by (simp add: filter_map comp_def step)
  then show ?thesis
    unfolding unavailable_numbers_def upt by (simp add: zero comp_def)
qed

lemma reserve_loop_exact:
  "snd (reserve_loop rid uid now ns ts acc) = acc @ unavailable_numbers rid ts ns"
proof (induction ns arbitrary: ts acc)
  case Nil
  show ?case by (simp add: unavailable_numbers_def)
next
  case (Cons m ns)
  show ?case
    unfolding reserve_loop_step Cons.IH
    by (simp add: unavailable_numbers_Cons[where now = now and uid = uid] find_None_available_count)
qed

lemma distinct_nth_notin_take:
  assumes "distinct xs" and "i < length xs"
  shows "xs ! i \<notin> set (take i xs)"
proof -
  have "xs = take i xs @ xs ! i # drop (Suc i) xs"
    using assms(2) by (rule id_take_nth_drop)
  then have "distinct (take i xs @ xs ! i # drop (Suc i) xs)" using assms(1) by simp
  then show ?thesis by simp
qed

lemma unavailable_numbers_distinct:
  assumes "distinct nums"
  shows "unavailable_numbers rid ts nums =
           filter (\<lambda>n. find (\<lambda>t. ticketNumber t = n \<and> status t = Available \<and> raffleId t = rid) ts
                         = None) nums"
proof -
  let ?Q = "\<lambda>n. find (\<lambda>t. ticketNumber t = n \<and> status t = Available \<and> raffleId t = rid) ts = None"
  have "claim_fails rid ts nums i \<longleftrightarrow> ?Q (nums ! i)" if "i \<in> set [0..<length nums]" for i
  proof -
    from that have "i < length nums" by simp
    then have "count_list (take i nums) (nums ! i) = 0"
      using distinct_nth_notin_take[OF assms] by (simp add: count_list_0_iff)
    then show ?thesis by (simp add: claim_fails_def find_None_available_count)
  qed
  then have "filter (claim_fails rid ts nums) [0..<length nums] =
             filter (\<lambda>i. ?Q (nums ! i)) [0..<length nums]"
    by (intro filter_cong) auto
  then have "unavailable_numbers rid ts nums = filter ?Q (map (\<lambda>i. nums ! i) [0..<length nums])"
    by (simp add: unavailable_numbers_def filter_map comp_def)
  then show ?thesis by (simp add: map_nth)
qed

text \<open>
  C2. A call to create-and-pay that reaches the reservation loop (the request is valid,
  its e-mail is new, a raffle is active, the user is saved, the numbers parse) and in
  which the conditional claim of some requested number fails is abandoned as a whole:
  the state returned is the state before the call, so every ticket claimed on the way
  is available again, no payment (and no user) was created and no counter moved; and
  the answer is the error \<open>Tickets not available\<close> whose list is exactly the numbers
  whose claim failed, in request order. When the requested numbers are distinct, these
  are exactly the requested numbers that had no available ticket in the active raffle
  before the call.
\<close>

theorem reserve_all_or_nothing:
  assumes valid: "\<not> req_validationErrors req"
    and newmail: "find (\<lambda>u. email u = req_email req) (users s) = None"
    and act: "find active (raffles s) = Some activeRaffle"
    and saves: "req_userSaves req"
    and freshid: "find (\<lambda>u. user_id u = req_newUserId req) (users s) = None"
    and parsed: "req_selectedNumbers req = Some nums"
    and pos: "i < length nums"
    and fails: "claim_fails (raffle_id activeRaffle) (tickets s) nums i"
  shows "create_and_pay s req now =
           (s, Failure (TicketsNotAvailable
                  (unavailable_numbers (raffle_id activeRaffle) (tickets s) nums))) \<and>
         (distinct nums \<longrightarrow>
            unavailable_numbers (raffle_id activeRaffle) (tickets s) nums =
              filter (\<lambda>n. find (\<lambda>t. ticketNumber t = n \<and> status t = Available \<and>
                                       raffleId t = raffle_id activeRaffle) (tickets s) = None) nums)"
proof (intro conjI impI)
  let ?u = "unavailable_numbers (raffle_id activeRaffle) (tickets s) nums"
  have "nums ! i \<in> set ?u"
    using pos fails by (auto simp: unavailable_numbers_def)
  then have some: "?u \<noteq> []" by auto
  have loop: "snd (reserve_loop (raffle_id activeRaffle) (req_newUserId req) now nums (tickets s) [])
                = ?u"
    by (simp add: reserve_loop_exact)
  show "create_and_pay s req now = (s, Failure (TicketsNotAvailable ?u))"
    using valid newmail act saves freshid parsed loop some by (rule create_and_pay_fails)
next
  assume "distinct nums"
  then show "unavailable_numbers (raffle_id activeRaffle) (tickets s) nums =
      filter (\<lambda>n. find (\<lambda>t. ticketNumber t = n \<and> status t = Available \<and>
                               raffleId t = raffle_id activeRaffle) (tickets s) = None) nums"
    by (rule unavailable_numbers_distinct)
qed

text \<open>The runs: ticket 1 is held by the first buyer, and a second buyer asks for 1 and
  2; the answer names 1 only. On the fresh raffle, a buyer asks for ticket 2 twice; the
  second claim fails, and ticket 2 is available again.\<close>

theorem reserve_all_or_nothing_witness:
  "\<not> req_validationErrors (mk_reserve ''b@x.io'' [1, 2] 11 101) \<and>
   find (\<lambda>u. email u = req_email (mk_reserve ''b@x.io'' [1, 2] 11 101)) (users sc_a1) = None \<and>
   find active (raffles sc_a1) =
     Some \<lparr>raffle_id = 1, totalTickets = 3, soldTickets = 0, reservedTickets = 1, active = True\<rparr> \<and>
   req_userSaves (mk_reserve ''b@x.io'' [1, 2] 11 101) \<and>
   find (\<lambda>u. user_id u = req_newUserId (mk_reserve ''b@x.io'' [1, 2] 11 101)) (users sc_a1) = None \<and>
   req_selectedNumbers (mk_reserve ''b@x.io'' [1, 2] 11 101) = Some [1, 2] \<and>
   claim_fails 1 (tickets sc_a1) [1, 2] 0 \<and>
   create_and_pay sc_a1 (mk_reserve ''b@x.io'' [1, 2] 11 101) 5 =
     (sc_a1, Failure (TicketsNotAvailable [1])) \<and>
   filter (\<lambda>n. find (\<lambda>t. ticketNumber t = n \<and> status t = Available \<and> raffleId t = 1)
                  (tickets sc_a1) = None) [1, 2] = [1] \<and>
   find active (raffles sc_a) =
     Some \<lparr>raffle_id = 1, totalTickets = 3, soldTickets = 0, reservedTickets = 0, active = True\<rparr> \<and>
   \<not> claim_fails 1 (tickets sc_a) [2, 2] 0 \<and>
   claim_fails 1 (tickets sc_a) [2, 2] 1 \<and>
   create_and_pay sc_a (mk_reserve ''a@x.io'' [2, 2] 10 100) 0 =
     (sc_a, Failure (TicketsNotAvailable [2])) \<and>
   status_of sc_a 1 2 = Some Available"
proof -
  let ?r = "\<lparr>raffle_id = 1, totalTickets = 3, soldTickets = 0, reservedTickets = 1, active = True\<rparr>"
  let ?q = "mk_reserve ''b@x.io'' [1, 2] 11 101"
  have h1: "\<not> req_validationErrors ?q" by code_simp
  have h2: "find (\<lambda>u. email u = req_email ?q) (users sc_a1) = None" by code_simp
  have h3: "find active (raffles sc_a1) = Some ?r" by code_simp
  have hs: "req_userSaves ?q" by code_simp
  have h4: "find (\<lambda>u. user_id u = req_newUserId ?q) (users sc_a1) = None" by code_simp
  have h5: "req_selectedNumbers ?q = Some [1, 2]" by code_simp
  have h6: "(0::nat) < length [1, 2 :: int]" by simp
  have h7: "claim_fails (raffle_id ?r) (tickets sc_a1) [1, 2] 0" by code_simp
  have u: "unavailable_numbers (raffle_id ?r) (tickets sc_a1) [1, 2] = [1]" by code_simp
  have d: "distinct [1, 2 :: int]" by simp
  note c = reserve_all_or_nothing[OF h1 h2 h3 hs h4 h5 h6 h7, of 5]
  from c u have a: "create_and_pay sc_a1 ?q 5 = (sc_a1, Failure (TicketsNotAvailable [1]))"
    by simp
  from c d u have b: "filter (\<lambda>n. find (\<lambda>t. ticketNumber t = n \<and> status t = Available \<and>
      raffleId t = 1) (tickets sc_a1) = None) [1, 2] = [1]"
    by simp
  let ?r' = "\<lparr>raffle_id = 1, totalTickets = 3, soldTickets = 0, reservedTickets = 0, active = True\<rparr>"
  let ?q' = "mk_reserve ''a@x.io'' [2, 2] 10 100"
  have k1: "\<not> req_validationErrors ?q'" by code_simp
  have k2: "find (\<lambda>u. email u = req_email ?q') (users sc_a) = None" by code_simp
  have k3: "find active (raffles sc_a) = Some ?r'" by code_simp
  have ks: "req_userSaves ?q'" by code_simp
  have k4: "find (\<lambda>u. user_id u = req_newUserId ?q') (users sc_a) = None" by code_simp
  have k5: "req_selectedNumbers ?q' = Some [2, 2]" by code_simp
  have k6: "(1::nat) < length [2, 2 :: int]" by simp
  have k7: "claim_fails (raffle_id ?r') (tickets sc_a) [2, 2] 1" by code_simp
  have u': "unavailable_numbers (raffle_id ?r') (tickets sc_a) [2, 2] = [2]" by code_simp
  note c' = reserve_all_or_nothing[OF k1 k2 k3 ks k4 k5 k6 k7, of 0]
  from c' u' have a': "create_and_pay sc_a ?q' 0 = (sc_a, Failure (TicketsNotAvailable [2]))"
    by simp
  have st: "status_of sc_a 1 2 = Some Available" by code_simp
  have h7': "claim_fails 1 (tickets sc_a1) [1, 2] 0" by code_simp
  have k0: "\<not> claim_fails 1 (tickets sc_a) [2, 2] 0" by code_simp
  have k7': "claim_fails 1 (tickets sc_a) [2, 2] 1" by code_simp
  show ?thesis
    by (intro conjI h1 h2 h3 hs h4 h5 h7' a b k3 k0 k7' a' st)
qed

section \<open>Terminal payment states\<close>



section \<open>Existing e-mail address\<close>

text \<open>
  C10. A call to create-and-pay whose e-mail address already belongs to a user fails and
  changes nothing: the state returned is the state before (no ticket reserved, no user
  or payment created, no counter moved), and the answer is an error: the validation
  errors when the request did not pass validation, \<open>User with this email already
  exists\<close> otherwise.
\<close>

theorem create_and_pay_existing_user:
  assumes "find (\<lambda>u. email u = req_email req) (users s) = Some u"
  shows "create_and_pay s req now =
           (s, if req_validationErrors req then ValidationErrors else Failure UserExists)"
  using assms by (simp add: create_and_pay_def)

text \<open>The run: the first buyer's address, used again for ticket 2.\<close>

theorem create_and_pay_existing_user_witness:
  "find (\<lambda>u. email u = req_email (mk_reserve ''a@x.io'' [2] 11 101)) (users sc_a1) =
     Some \<lparr>user_id = 10, email = ''a@x.io''\<rparr> \<and>
   create_and_pay sc_a1 (mk_reserve ''a@x.io'' [2] 11 101) 5 = (sc_a1, Failure UserExists)"
proof -
  have h: "find (\<lambda>u. email u = req_email (mk_reserve ''a@x.io'' [2] 11 101)) (users sc_a1) =
             Some \<lparr>user_id = 10, email = ''a@x.io''\<rparr>" by code_simp
  have v: "\<not> req_validationErrors (mk_reserve ''a@x.io'' [2] 11 101)" by code_simp
  from create_and_pay_existing_user[OF h, of 5] v show ?thesis using h by simp
qed

section \<open>At most one active raffle in sequential runs\<close>

lemma map_updateOne:
  assumes "\<And>x. g (f x) = g x"
  shows "map g (updateOne P f xs) = map g xs"
  using assms by (induction xs) auto

lemma map_updateMany:
  assumes "\<And>x. g (f x) = g x"
  shows "map g (updateMany P f xs) = map g xs"
  using assms by (simp add: updateMany_def)

lemma count_active_map: "length (filter active rs) = length (filter id (map active rs))"
  by (simp add: filter_map comp_def)

lemma raffle_inv_cong:
  assumes "map raffle_id rs' = map raffle_id rs" and "map active rs' = map active rs"
    and "raffle_inv rs"
  shows "raffle_inv rs'"
  using assms unfolding raffle_inv_def count_active_map by simp

lemma raffle_inv_updateOne_counters:
  assumes "\<And>x. raffle_id (f x) = raffle_id x" and "\<And>x. active (f x) = active x"
    and "raffle_inv rs"
  shows "raffle_inv (updateOne P f rs)"
proof (rule raffle_inv_cong[OF _ _ assms(3)])
  show "map raffle_id (updateOne P f rs) = map raffle_id rs"
    using assms(1) by (rule map_updateOne)
  show "map active (updateOne P f rs) = map active rs"
    using assms(2) by (rule map_updateOne)
qed

lemma deactivate_many_le:
  "length (filter active (updateMany P (\<lambda>x. x\<lparr>active := False\<rparr>) rs)) \<le> length (filter active rs)"
  by (induction rs) (auto simp: updateMany_def)

lemma deactivate_one_le:
  "length (filter active (updateOne P (\<lambda>x. x\<lparr>active := False\<rparr>) rs)) \<le> length (filter active rs)"
  by (induction rs) auto

lemma raffle_inv_deactivate_many:
  "raffle_inv rs \<Longrightarrow> raffle_inv (updateMany P (\<lambda>x. x\<lparr>active := False\<rparr>) rs)"
  unfolding raffle_inv_def
  using deactivate_many_le[of P rs] by (simp add: map_updateMany)

lemma raffle_inv_deactivate_one:
  "raffle_inv rs \<Longrightarrow> raffle_inv (updateOne P (\<lambda>x. x\<lparr>active := False\<rparr>) rs)"
  unfolding raffle_inv_def
  using deactivate_one_le[of P rs] by (simp add: map_updateOne)

lemma filter_key_le_1:
  "distinct (map g xs) \<Longrightarrow> length (filter (\<lambda>x. g x = k) xs) \<le> 1"
proof (induction xs)
  case Nil
  show ?case by simp
next
  case (Cons a xs)
  show ?case
  proof (cases "g a = k")
    case True
    have "g a \<notin> g ` set xs" using Cons.prems by simp
    then have "\<forall>x\<in>set xs. g x \<noteq> k"
      unfolding True[symmetric] by (metis image_eqI)
    then have "filter (\<lambda>x. g x = k) xs = []"
      by (simp add: filter_empty_conv)
    then show ?thesis using True by simp
  next
    case False
    then show ?thesis using Cons by simp
  qed
qed

lemma filter_length_mono:
  assumes "\<And>x. x \<in> set xs \<Longrightarrow> P x \<Longrightarrow> Q x"
  shows "length (filter P xs) \<le> length (filter Q xs)"
  using assms by (induction xs) auto

lemma set_updateOne: "set (updateOne P f xs) \<subseteq> set xs \<union> f ` {x \<in> set xs. P x}"
  by (induction xs) auto

lemma raffle_inv_activate:
  assumes "raffle_inv rs"
  shows "raffle_inv (updateOne (\<lambda>x. raffle_id x = rid) (\<lambda>x. x\<lparr>active := b\<rparr>)
           (updateMany (\<lambda>x. raffle_id x \<noteq> rid) (\<lambda>x. x\<lparr>active := False\<rparr>) rs))"
    (is "raffle_inv ?rs'")
proof -
  let ?m = "updateMany (\<lambda>x. raffle_id x \<noteq> rid) (\<lambda>x. x\<lparr>active := False\<rparr>) rs"
  have ids: "map raffle_id ?rs' = map raffle_id rs"
    by (simp add: map_updateOne map_updateMany)
  have d: "distinct (map raffle_id ?rs')" using assms ids by (simp add: raffle_inv_def)
  have m: "\<And>y. y \<in> set ?m \<Longrightarrow> active y \<Longrightarrow> raffle_id y = rid"
    by (auto simp: updateMany_def split: if_splits)
  have act: "raffle_id x = rid" if x: "x \<in> set ?rs'" and a: "active x" for x
  proof -
    from x set_updateOne[of "\<lambda>x. raffle_id x = rid" "\<lambda>x. x\<lparr>active := b\<rparr>" ?m]
    have "x \<in> set ?m \<or> x \<in> (\<lambda>x. x\<lparr>active := b\<rparr>) ` {y \<in> set ?m. raffle_id y = rid}"
      by blast
    then show ?thesis
    proof
      assume "x \<in> set ?m"
      then show ?thesis using m a by blast
    next
      assume "x \<in> (\<lambda>x. x\<lparr>active := b\<rparr>) ` {y \<in> set ?m. raffle_id y = rid}"
      then obtain y where "raffle_id y = rid" and "x = y\<lparr>active := b\<rparr>" by blast
      then show ?thesis by simp
    qed
  qed
  have "length (filter active ?rs') \<le> length (filter (\<lambda>x. raffle_id x = rid) ?rs')"
    by (rule filter_length_mono) (rule act)
  also have "\<dots> \<le> 1" using d by (rule filter_key_le_1)
  finally show ?thesis using d by (simp add: raffle_inv_def)
qed

lemma castBoolean_True_truthy: "castBoolean v = Some True \<Longrightarrow> truthy v"
  by (cases v) (auto split: if_splits)

lemma find_SomeD: "find P xs = Some x \<Longrightarrow> P x \<and> x \<in> set xs"
  by (auto simp: find_Some_iff)

lemma set_deleteOne: "set (deleteOne P xs) \<subseteq> set xs"
  by (induction xs) auto

lemma distinct_map_deleteOne: "distinct (map g xs) \<Longrightarrow> distinct (map g (deleteOne P xs))"
proof (induction xs)
  case Nil
  show ?case by simp
next
  case (Cons a xs)
  have "g ` set (deleteOne P xs) \<subseteq> g ` set xs"
    using set_deleteOne[of P xs] by blast
  then show ?case using Cons by auto
qed

lemma filter_deleteOne_le: "length (filter Q (deleteOne P xs)) \<le> length (filter Q xs)"
  by (induction xs) auto

lemma raffle_inv_deleteOne: "raffle_inv rs \<Longrightarrow> raffle_inv (deleteOne P rs)"
  unfolding raffle_inv_def
  using filter_deleteOne_le[of active P rs] by (simp add: distinct_map_deleteOne)

lemma raffle_inv_create:
  assumes "raffle_inv rs" and "find (\<lambda>r. raffle_id r = i) rs = None"
  shows "raffle_inv (updateMany (\<lambda>_. True) (\<lambda>r. r\<lparr>active := False\<rparr>) rs @
           [\<lparr>raffle_id = i, totalTickets = n, soldTickets = 0, reservedTickets = 0, active = True\<rparr>])"
proof -
  have "i \<notin> raffle_id ` set rs" using assms(2) by (auto simp: find_None_iff)
  moreover have "filter active (updateMany (\<lambda>_. True) (\<lambda>r. r\<lparr>active := False\<rparr>) rs) = []"
    by (simp add: updateMany_def filter_empty_conv)
  ultimately show ?thesis using assms(1)
    by (simp add: raffle_inv_def map_updateMany)
qed

lemma create_and_pay_raffles:
  "map raffle_id (raffles (fst (create_and_pay s req now))) = map raffle_id (raffles s) \<and>
   map active (raffles (fst (create_and_pay s req now))) = map active (raffles s)"
  by (simp add: create_and_pay_def map_updateOne split: option.split prod.split)

lemma confirm_raffles:
  "map raffle_id (raffles (fst (confirm s pid))) = map raffle_id (raffles s) \<and>
   map active (raffles (fst (confirm s pid))) = map active (raffles s)"
  by (simp add: confirm_def map_updateOne split: option.split)

lemma reject_raffles:
  "map raffle_id (raffles (fst (reject s pid))) = map raffle_id (raffles s) \<and>
   map active (raffles (fst (reject s pid))) = map active (raffles s)"
  by (simp add: reject_def map_updateOne split: option.split)

lemma create_and_pay_inv:
  "raffle_inv (raffles s) \<Longrightarrow> raffle_inv (raffles (fst (create_and_pay s req now)))"
  using create_and_pay_raffles[of s req now] by (blast intro: raffle_inv_cong)

lemma confirm_inv: "raffle_inv (raffles s) \<Longrightarrow> raffle_inv (raffles (fst (confirm s pid)))"
  using confirm_raffles[of s pid] by (blast intro: raffle_inv_cong)

lemma reject_inv: "raffle_inv (raffles s) \<Longrightarrow> raffle_inv (raffles (fst (reject s pid)))"
  using reject_raffles[of s pid] by (blast intro: raffle_inv_cong)

lemma sweep_raffles: "raffles (sweep s now) = raffles s"
  by (simp add: sweep_def Let_def)

lemma create_raffle_inv:
  "raffle_inv (raffles s) \<Longrightarrow> raffle_inv (raffles (fst (create_raffle s creq)))"
  by (simp add: create_raffle_def raffle_inv_create split: option.split)

lemma update_raffle_inv:
  assumes "raffle_inv (raffles s)"
  shows "raffle_inv (raffles (fst (update_raffle s rid upd)))"
proof (cases "find (\<lambda>r. raffle_id r = rid) (raffles s)")
  case None
  then show ?thesis using assms by (simp add: update_raffle_def Let_def)
next
  case (Some r)
  note found = this
  then have rid: "raffle_id r = rid" by (auto dest: find_SomeD)
  let ?others = "updateMany (\<lambda>x. raffle_id x \<noteq> rid) (\<lambda>x. x\<lparr>active := False\<rparr>) (raffles s)"
  have others: "raffle_inv ?others" using assms by (rule raffle_inv_deactivate_many)
  show ?thesis
  proof (cases "upd_active upd")
    case None
    then show ?thesis using found assms by (simp add: update_raffle_def Let_def)
  next
    case (Some v)
    note v = this
    show ?thesis
    proof (cases "castBoolean v")
      case None
      then show ?thesis
        using found v rid assms others by (simp add: update_raffle_def Let_def)
    next
      case (Some b)
      show ?thesis
      proof (cases "truthy v")
        case True
        then show ?thesis
          using found v rid assms others Some raffle_inv_activate[OF assms, of rid b]
          by (simp add: update_raffle_def Let_def)
      next
        case False
        then have "b = False" using Some castBoolean_True_truthy[of v] by (cases b) auto
        then show ?thesis
          using found v rid assms False Some raffle_inv_deactivate_one[OF assms]
          by (simp add: update_raffle_def Let_def)
      qed
    qed
  qed
qed

lemma delete_raffle_inv:
  "raffle_inv (raffles s) \<Longrightarrow> raffle_inv (raffles (fst (delete_raffle s rid)))"
  by (simp add: delete_raffle_def raffle_inv_deleteOne split: option.split)

lemma sequential_raffle_inv: "sequential s \<Longrightarrow> raffle_inv (raffles s)"
proof (induction rule: sequential.induct)
  case r_init
  show ?case by (simp add: init_state_def raffle_inv_def)
next
  case (r_reserve s req now)
  then show ?case by (simp add: create_and_pay_inv)
next
  case (r_confirm s pid)
  then show ?case by (simp add: confirm_inv)
next
  case (r_reject s pid)
  then show ?case by (simp add: reject_inv)
next
  case (r_sweep s now)
  then show ?case by (simp add: sweep_raffles)
next
  case (r_create s creq)
  then show ?case by (simp add: create_raffle_inv)
next
  case (r_update s rid upd)
  then show ?case by (simp add: update_raffle_inv)
next
  case (r_delete s rid)
  then show ?case by (simp add: delete_raffle_inv)
qed

text \<open>The two ways a raffle becomes active. After a successful create, the new raffle
  is the only active one; after an update whose \<open>updates.active\<close> is truthy, whatever
  its outcome, no raffle other than the updated one is active.\<close>

lemma create_raffle_only_new_active:
  assumes "snd (create_raffle s creq) = Created i"
  shows "map raffle_id (filter active (raffles (fst (create_raffle s creq)))) = [i]"
proof -
  have none: "filter active (updateMany (\<lambda>_. True) (\<lambda>r. r\<lparr>active := False\<rparr>) (raffles s)) = []"
    by (simp add: updateMany_def filter_empty_conv)
  show ?thesis
    using assms none
    by (auto simp: create_raffle_def split: option.splits if_splits)
qed

lemma update_raffle_deactivates_others:
  assumes found: "find (\<lambda>r. raffle_id r = rid) (raffles s) = Some r"
    and v: "upd_active upd = Some v" and t: "truthy v"
    and x: "x \<in> set (raffles (fst (update_raffle s rid upd)))" and a: "active x"
  shows "raffle_id x = rid"
proof -
  let ?m = "updateMany (\<lambda>x. raffle_id x \<noteq> rid) (\<lambda>x. x\<lparr>active := False\<rparr>) (raffles s)"
  have rid: "raffle_id r = rid" using found by (auto dest: find_SomeD)
  have m: "\<And>y. y \<in> set ?m \<Longrightarrow> active y \<Longrightarrow> raffle_id y = rid"
    by (auto simp: updateMany_def split: if_splits)
  have "raffles (fst (update_raffle s rid upd)) = ?m \<or>
        (\<exists>b. raffles (fst (update_raffle s rid upd)) =
               updateOne (\<lambda>x. raffle_id x = rid) (\<lambda>x. x\<lparr>active := b\<rparr>) ?m)"
    using found v t rid by (auto simp: update_raffle_def Let_def split: option.splits)
  then show ?thesis
  proof
    assume "raffles (fst (update_raffle s rid upd)) = ?m"
    then show ?thesis using x a m by simp
  next
    assume "\<exists>b. raffles (fst (update_raffle s rid upd)) =
               updateOne (\<lambda>x. raffle_id x = rid) (\<lambda>x. x\<lparr>active := b\<rparr>) ?m"
    then obtain b where b: "raffles (fst (update_raffle s rid upd)) =
               updateOne (\<lambda>x. raffle_id x = rid) (\<lambda>x. x\<lparr>active := b\<rparr>) ?m" by blast
    from x b set_updateOne[of "\<lambda>x. raffle_id x = rid" "\<lambda>x. x\<lparr>active := b\<rparr>" ?m]
    have "x \<in> set ?m \<or> x \<in> (\<lambda>x. x\<lparr>active := b\<rparr>) ` {y \<in> set ?m. raffle_id y = rid}"
      by auto
    then show ?thesis
    proof
      assume "x \<in> set ?m"
      then show ?thesis using m a by blast
    next
      assume "x \<in> (\<lambda>x. x\<lparr>active := b\<rparr>) ` {y \<in> set ?m. raffle_id y = rid}"
      then obtain y where "raffle_id y = rid" and "x = y\<lparr>active := b\<rparr>" by blast
      then show ?thesis by simp
    qed
  qed
qed

text \<open>In every state of a sequential run at most one raffle is active.\<close>

lemma sequential_at_most_one_active:
  "sequential s \<Longrightarrow> length (filter active (raffles s)) \<le> 1"
  using sequential_raffle_inv[of s] by (simp add: raffle_inv_def)

section \<open>Interleaved runs\<close>

text \<open>The PUT, the job and the DELETE of the sequential runs are their operations run
  back to back, so every state of a sequential run is reachable.\<close>

lemma find_updateMany_others:
  assumes "\<And>x. Q x \<Longrightarrow> \<not> P x" and "\<And>x. Q x \<Longrightarrow> \<not> P (f x)"
  shows "find P (updateMany Q f xs) = find P xs"
  using assms by (induction xs) (auto simp: updateMany_def)

lemma updateOne_same:
  "find P xs = Some r \<Longrightarrow> f r = r \<Longrightarrow> updateOne P f xs = xs"
  by (induction xs) (auto split: if_splits)

lemma put_deactivate_find:
  "find (\<lambda>x. raffle_id x = raffle_id r) (raffles (put_deactivate s r upd)) =
   find (\<lambda>x. raffle_id x = raffle_id r) (raffles s)"
  by (simp add: put_deactivate_def find_updateMany_others)

lemma update_raffle_split:
  "update_raffle s rid upd =
     (case find (\<lambda>x. raffle_id x = rid) (raffles s) of
        None \<Rightarrow> (s, NotFound)
      | Some r \<Rightarrow> put_save (put_deactivate s r upd) r upd)"
proof (cases "find (\<lambda>x. raffle_id x = rid) (raffles s)")
  case None
  then show ?thesis by (simp add: update_raffle_def)
next
  case (Some r)
  then have rid: "raffle_id r = rid" by (auto dest: find_SomeD)
  have f: "find (\<lambda>x. raffle_id x = raffle_id r) (raffles (put_deactivate s r upd)) = Some r"
    using Some unfolding rid[symmetric] by (simp add: put_deactivate_find)
  have same: "updateOne (\<lambda>x. raffle_id x = raffle_id r) (\<lambda>x. x\<lparr>active := active r\<rparr>)
                (raffles (put_deactivate s r upd)) = raffles (put_deactivate s r upd)"
    using f by (rule updateOne_same) simp
  have eq: "put_deactivate s r upd =
     s\<lparr>raffles := (if (case upd_active upd of None \<Rightarrow> False | Some v \<Rightarrow> truthy v)
                   then updateMany (\<lambda>x. raffle_id x \<noteq> raffle_id r)
                          (\<lambda>x. x\<lparr>active := False\<rparr>) (raffles s)
                   else raffles s)\<rparr>"
    by (simp add: put_deactivate_def)
  show ?thesis
  proof (cases "upd_active upd")
    case None
    then show ?thesis using Some f by (simp add: update_raffle_def put_save_def Let_def eq)
  next
    case (Some v)
    note v = this
    show ?thesis
    proof (cases "castBoolean v")
      case None
      then show ?thesis
        using \<open>find (\<lambda>x. raffle_id x = rid) (raffles s) = Some r\<close> v f
        by (simp add: update_raffle_def put_save_def Let_def eq)
    next
      case (Some b)
      show ?thesis
      proof (cases "b = active r")
        case True
        have "raffles (put_deactivate s r upd) =
           (if truthy v then updateMany (\<lambda>x. raffle_id x \<noteq> raffle_id r)
                          (\<lambda>x. x\<lparr>active := False\<rparr>) (raffles s) else raffles s)"
          using v by (simp add: put_deactivate_def)
        then show ?thesis
          using \<open>find (\<lambda>x. raffle_id x = rid) (raffles s) = Some r\<close> v f Some True same
          by (simp add: update_raffle_def put_save_def Let_def eq)
      next
        case False
        then show ?thesis
          using \<open>find (\<lambda>x. raffle_id x = rid) (raffles s) = Some r\<close> v f Some
          by (simp add: update_raffle_def put_save_def Let_def eq)
      qed
    qed
  qed
qed

lemma sweep_split:
  "sweep s now = (if sweep_find s now \<noteq> [] then sweep_update s (sweep_find s now) else s)"
  by (simp add: sweep_def sweep_find_def sweep_update_def Let_def)

lemma delete_raffle_split:
  "delete_raffle s rid =
     (case find (\<lambda>x. raffle_id x = rid) (raffles s) of
        None \<Rightarrow> (s, NotFound)
      | Some r \<Rightarrow> if delete_count s r > 0 then (s, HasSales) else (delete_write s r, Success))"
  by (auto simp: delete_raffle_def delete_count_def delete_write_def
           split: option.splits dest: find_SomeD)

lemma sequential_reachable: "sequential s \<Longrightarrow> reachable s"
proof (induction rule: sequential.induct)
  case r_init
  show ?case unfolding reachable_def by (blast intro: run.intros)
next
  case (r_reserve s req now)
  then show ?case unfolding reachable_def by (blast intro: run_reserve)
next
  case (r_confirm s pid)
  then show ?case unfolding reachable_def by (blast intro: run_confirm)
next
  case (r_reject s pid)
  then show ?case unfolding reachable_def by (blast intro: run_reject)
next
  case (r_sweep s now)
  then obtain fs where fs: "run s fs" unfolding reachable_def by blast
  show ?case
  proof (cases "sweep_find s now = []")
    case True
    then show ?thesis using fs unfolding reachable_def by (auto simp: sweep_split)
  next
    case False
    from run_sweep_find[OF fs False]
    have "run s (SweepFound (sweep_find s now) # fs)" .
    from run_sweep_update[OF this, of "sweep_find s now"]
    have "run (sweep_update s (sweep_find s now)) fs" by simp
    then show ?thesis using False unfolding reachable_def by (auto simp: sweep_split)
  qed
next
  case (r_create s creq)
  then show ?case unfolding reachable_def by (blast intro: run_create)
next
  case (r_update s rid upd)
  then obtain fs where fs: "run s fs" unfolding reachable_def by blast
  show ?case
  proof (cases "find (\<lambda>x. raffle_id x = rid) (raffles s)")
    case None
    then show ?thesis using fs unfolding reachable_def by (auto simp: update_raffle_split)
  next
    case (Some r)
    from run_put_find[OF fs Some, of upd]
    have "run s (PutLoaded r upd # fs)" .
    from run_put_deactivate[OF this, of r upd]
    have "run (put_deactivate s r upd) (PutDeactivated r upd # fs)" by simp
    from run_put_save[OF this, of r upd]
    have "run (fst (put_save (put_deactivate s r upd) r upd)) fs" by simp
    then show ?thesis using Some unfolding reachable_def by (auto simp: update_raffle_split)
  qed
next
  case (r_delete s rid)
  then obtain fs where fs: "run s fs" unfolding reachable_def by blast
  show ?case
  proof (cases "find (\<lambda>x. raffle_id x = rid) (raffles s)")
    case None
    then show ?thesis using fs unfolding reachable_def by (auto simp: delete_raffle_split)
  next
    case (Some r)
    show ?thesis
    proof (cases "delete_count s r = 0")
      case False
      then show ?thesis using fs Some unfolding reachable_def
        by (auto simp: delete_raffle_split)
    next
      case True
      from run_delete_find[OF fs Some]
      have "run s (DeleteFound r # fs)" .
      from run_delete_count[OF this _ True]
      have "run s (DeleteCounted r # fs)" by simp
      from run_delete_write[OF this, of r]
      have "run (delete_write s r) fs" by simp
      then show ?thesis using Some True unfolding reachable_def
        by (auto simp: delete_raffle_split)
    qed
  qed
qed

lemma sc_b_run: "run sc_b []"
  unfolding sc_b_def sc_a1_def sc_a_def by (intro run.intros(1-5))

text \<open>
  C9. Two raffles are active in a reachable state, with no call left in flight.
  Raffle 2 is the active one; a PUT that activates raffle 1 has loaded it and
  deactivated raffle 2 when a POST /create commits raffle 3, active; the PUT then saves
  raffle 1 with \<open>active = true\<close>. Each route deactivates the other raffles as it
  should (see the sequential runs above), but the PUT does it outside any transaction,
  unlike POST /create.
\<close>

theorem two_active_raffles:
  "reachable sc_d3 \<and> run sc_d3 [] \<and>
   find (\<lambda>x. raffle_id x = 1) (raffles sc_b) = Some sc_r1 \<and>
   map (\<lambda>r. (raffle_id r, active r)) (raffles sc_b) = [(1, False), (2, True)] \<and>
   map (\<lambda>r. (raffle_id r, active r)) (raffles sc_d1) = [(1, False), (2, False)] \<and>
   map (\<lambda>r. (raffle_id r, active r)) (raffles sc_d2) = [(1, False), (2, False), (3, True)] \<and>
   map (\<lambda>r. (raffle_id r, active r)) (raffles sc_d3) = [(1, True), (2, False), (3, True)] \<and>
   length (filter active (raffles sc_d3)) = 2"
proof -
  have f: "find (\<lambda>x. raffle_id x = 1) (raffles sc_b) = Some sc_r1" by code_simp
  have r0: "run sc_b (PutLoaded sc_r1 sc_put # [])"
    using sc_b_run f by (rule run_put_find)
  have r1: "run sc_d1 [PutDeactivated sc_r1 sc_put]"
    unfolding sc_d1_def using run_put_deactivate[OF r0, of sc_r1 sc_put] by simp
  have r2: "run sc_d2 [PutDeactivated sc_r1 sc_put]"
    unfolding sc_d2_def using r1 by (rule run_create)
  have r3: "run sc_d3 []"
    unfolding sc_d3_def using run_put_save[OF r2, of sc_r1 sc_put] by simp
  have r: "reachable sc_d3" unfolding reachable_def using r3 by blast
  have e: "map (\<lambda>r. (raffle_id r, active r)) (raffles sc_b) = [(1, False), (2, True)] \<and>
   map (\<lambda>r. (raffle_id r, active r)) (raffles sc_d1) = [(1, False), (2, False)] \<and>
   map (\<lambda>r. (raffle_id r, active r)) (raffles sc_d2) = [(1, False), (2, False), (3, True)] \<and>
   map (\<lambda>r. (raffle_id r, active r)) (raffles sc_d3) = [(1, True), (2, False), (3, True)] \<and>
   length (filter active (raffles sc_d3)) = 2"
    by code_simp
  from r r3 f e show ?thesis by (intro conjI) auto
qed

section \<open>Ticket numbers out of range\<close>

lemma ticket_inv_keys:
  "ticket_inv s \<longleftrightarrow>
     (\<forall>k \<in> set (tkeys (tickets s)). \<exists>q \<in> set (rkeys (raffles s)).
         fst q = fst k \<and> 1 \<le> snd k \<and> snd k \<le> snd q)"
  by (auto simp: ticket_inv_def in_range_def tkeys_def rkeys_def list_all_iff list_ex_iff)

lemma ticket_inv_cong:
  assumes "tkeys (tickets s') = tkeys (tickets s)" and "rkeys (raffles s') = rkeys (raffles s)"
    and "ticket_inv s"
  shows "ticket_inv s'"
  using assms by (simp add: ticket_inv_keys)

lemma tkeys_updateOne:
  assumes "\<And>t. raffleId (f t) = raffleId t" and "\<And>t. ticketNumber (f t) = ticketNumber t"
  shows "tkeys (updateOne P f ts) = tkeys ts"
  unfolding tkeys_def using assms by (induction ts) auto

lemma tkeys_updateMany:
  assumes "\<And>t. raffleId (f t) = raffleId t" and "\<And>t. ticketNumber (f t) = ticketNumber t"
  shows "tkeys (updateMany P f ts) = tkeys ts"
  unfolding tkeys_def using assms by (simp add: updateMany_def)

lemma rkeys_updateOne:
  assumes "\<And>r. raffle_id (f r) = raffle_id r" and "\<And>r. totalTickets (f r) = totalTickets r"
  shows "rkeys (updateOne P f rs) = rkeys rs"
  unfolding rkeys_def using assms by (induction rs) auto

lemma rkeys_updateMany:
  assumes "\<And>r. raffle_id (f r) = raffle_id r" and "\<And>r. totalTickets (f r) = totalTickets r"
  shows "rkeys (updateMany P f rs) = rkeys rs"
  unfolding rkeys_def using assms by (simp add: updateMany_def)

lemma tkeys_reserve_loop:
  "tkeys (fst (reserve_loop rid uid now ns ts acc)) = tkeys ts"
proof (induction ns arbitrary: ts acc)
  case Nil
  show ?case by simp
next
  case (Cons m ns)
  show ?case unfolding reserve_loop_step
    by (simp add: Cons.IH tkeys_updateOne)
qed

lemma tkeys_reserve_loop_eq:
  "reserve_loop rid uid now ns ts acc = (ts', u) \<Longrightarrow> tkeys ts' = tkeys ts"
  using tkeys_reserve_loop[of rid uid now ns ts acc] by simp

lemma create_and_pay_keys:
  "tkeys (tickets (fst (create_and_pay s req now))) = tkeys (tickets s) \<and>
   rkeys (raffles (fst (create_and_pay s req now))) = rkeys (raffles s)"
  by (auto simp: create_and_pay_def rkeys_updateOne split: option.split prod.split
           dest: tkeys_reserve_loop_eq)

lemma confirm_keys:
  "tkeys (tickets (fst (confirm s pid))) = tkeys (tickets s) \<and>
   rkeys (raffles (fst (confirm s pid))) = rkeys (raffles s)"
  by (simp add: confirm_def rkeys_updateOne tkeys_updateMany split: option.split)

lemma reject_keys:
  "tkeys (tickets (fst (reject s pid))) = tkeys (tickets s) \<and>
   rkeys (raffles (fst (reject s pid))) = rkeys (raffles s)"
  by (simp add: reject_def rkeys_updateOne tkeys_updateMany split: option.split)

lemma create_raffle_ticket_inv:
  assumes "ticket_inv s"
  shows "ticket_inv (fst (create_raffle s creq))"
proof (cases "snd (create_raffle s creq) = Created (cr_newRaffleId creq)")
  case False
  then have "fst (create_raffle s creq) = s"
    by (simp add: create_raffle_def split: option.splits if_splits)
  then show ?thesis using assms by simp
next
  case True
  then obtain n where n: "cr_parsedTotalTickets creq = Some n"
    and s': "fst (create_raffle s creq) =
       s\<lparr>raffles := updateMany (\<lambda>_. True) (\<lambda>r. r\<lparr>active := False\<rparr>) (raffles s) @
                       [\<lparr>raffle_id = cr_newRaffleId creq, totalTickets = n,
                         soldTickets = 0, reservedTickets = 0, active = True\<rparr>],
          tickets := tickets s @ map (new_ticket (cr_newRaffleId creq)) [1..n]\<rparr>"
    by (auto simp: create_raffle_def split: option.splits if_splits)
  have rk: "rkeys (raffles (fst (create_raffle s creq))) =
              rkeys (raffles s) @ [(cr_newRaffleId creq, n)]"
    unfolding s' by (simp add: rkeys_def updateMany_def)
  have tk: "tkeys (tickets (fst (create_raffle s creq))) =
              tkeys (tickets s) @ map (\<lambda>k. (cr_newRaffleId creq, k)) [1..n]"
    unfolding s' by (simp add: tkeys_def new_ticket_def comp_def)
  show ?thesis
    using assms unfolding ticket_inv_keys rk tk by auto
qed

lemma deleteOne_keeps: "x \<in> set xs \<Longrightarrow> \<not> P x \<Longrightarrow> x \<in> set (deleteOne P xs)"
  by (induction xs) auto

lemma ids_rkeys: "map raffle_id rs = map fst (rkeys rs)"
  by (simp add: rkeys_def comp_def)

lemma db_inv_cong:
  assumes "tkeys (tickets s') = tkeys (tickets s) \<and> rkeys (raffles s') = rkeys (raffles s)"
    and "db_inv s"
  shows "db_inv s'"
  using assms ticket_inv_cong[of s' s] by (simp add: db_inv_def ids_rkeys)

lemma put_deactivate_keys:
  "tkeys (tickets (put_deactivate s r upd)) = tkeys (tickets s) \<and>
   rkeys (raffles (put_deactivate s r upd)) = rkeys (raffles s)"
  by (simp add: put_deactivate_def rkeys_updateMany)

lemma put_save_keys:
  "tkeys (tickets (fst (put_save s r upd))) = tkeys (tickets s) \<and>
   rkeys (raffles (fst (put_save s r upd))) = rkeys (raffles s)"
  by (simp add: put_save_def rkeys_updateOne split: option.split)

lemma sweep_update_keys:
  "tkeys (tickets (sweep_update s ticketNumbers)) = tkeys (tickets s) \<and>
   rkeys (raffles (sweep_update s ticketNumbers)) = rkeys (raffles s)"
  by (simp add: sweep_update_def tkeys_updateMany)

lemma create_raffle_ids:
  assumes "distinct (map raffle_id (raffles s))"
  shows "distinct (map raffle_id (raffles (fst (create_raffle s creq))))"
proof (cases "snd (create_raffle s creq) = Created (cr_newRaffleId creq)")
  case False
  then have "fst (create_raffle s creq) = s"
    by (simp add: create_raffle_def split: option.splits if_splits)
  then show ?thesis using assms by simp
next
  case True
  then have fresh: "find (\<lambda>r. raffle_id r = cr_newRaffleId creq) (raffles s) = None"
    by (auto simp: create_raffle_def split: option.splits if_splits)
  then have notin: "cr_newRaffleId creq \<notin> raffle_id ` set (raffles s)"
    by (auto simp: find_None_iff)
  have "map raffle_id (raffles (fst (create_raffle s creq))) =
          map raffle_id (raffles s) @ [cr_newRaffleId creq]"
    using True by (auto simp: create_raffle_def map_updateMany split: option.splits if_splits)
  then show ?thesis using assms notin by simp
qed

lemma delete_write_ticket_inv:
  assumes "ticket_inv s"
  shows "ticket_inv (delete_write s r)"
  unfolding delete_write_def ticket_inv_def in_range_def list_all_iff list_ex_iff
proof (intro ballI)
  fix t
  assume "t \<in> set (tickets (s\<lparr>tickets := filter (\<lambda>t. raffleId t \<noteq> raffle_id r) (tickets s),
          raffles := deleteOne (\<lambda>x. raffle_id x = raffle_id r) (raffles s)\<rparr>))"
  then have t: "t \<in> set (tickets s)" and ne: "raffleId t \<noteq> raffle_id r" by auto
  from assms t obtain q where q: "q \<in> set (raffles s)" "raffle_id q = raffleId t"
    "1 \<le> ticketNumber t" "ticketNumber t \<le> totalTickets q"
    by (auto simp: ticket_inv_def in_range_def list_all_iff list_ex_iff)
  then have "q \<in> set (deleteOne (\<lambda>x. raffle_id x = raffle_id r) (raffles s))"
    using ne by (intro deleteOne_keeps) auto
  then show "\<exists>x\<in>set (raffles (s\<lparr>tickets := filter (\<lambda>t. raffleId t \<noteq> raffle_id r) (tickets s),
          raffles := deleteOne (\<lambda>x. raffle_id x = raffle_id r) (raffles s)\<rparr>)).
      raffle_id x = raffleId t \<and> 1 \<le> ticketNumber t \<and> ticketNumber t \<le> totalTickets x"
    using q by auto
qed

lemma delete_write_db_inv: "db_inv s \<Longrightarrow> db_inv (delete_write s r)"
  using delete_write_ticket_inv[of s r]
  by (simp add: db_inv_def) (simp add: delete_write_def distinct_map_deleteOne)

lemma run_db_inv: "run s fs \<Longrightarrow> db_inv s"
proof (induction rule: run.induct)
  case run_init
  show ?case by (simp add: init_state_def db_inv_def ticket_inv_def)
next
  case (run_reserve s fs req now)
  then show ?case using create_and_pay_keys[of s req now] by (blast intro: db_inv_cong)
next
  case (run_confirm s fs pid)
  then show ?case using confirm_keys[of s pid] by (blast intro: db_inv_cong)
next
  case (run_reject s fs pid)
  then show ?case using reject_keys[of s pid] by (blast intro: db_inv_cong)
next
  case (run_create s fs creq)
  then show ?case by (simp add: db_inv_def create_raffle_ids create_raffle_ticket_inv)
next
  case (run_put_find s fs rid r upd)
  then show ?case by simp
next
  case (run_put_deactivate s fs r upd)
  then show ?case using put_deactivate_keys[of s r upd] by (blast intro: db_inv_cong)
next
  case (run_put_save s fs r upd)
  then show ?case using put_save_keys[of s r upd] by (blast intro: db_inv_cong)
next
  case (run_sweep_find s fs now)
  then show ?case by simp
next
  case (run_sweep_update s fs ticketNumbers)
  then show ?case using sweep_update_keys[of s ticketNumbers] by (blast intro: db_inv_cong)
next
  case (run_delete_find s fs rid r)
  then show ?case by simp
next
  case (run_delete_count s fs r)
  then show ?case by simp
next
  case (run_delete_write s fs r)
  then show ?case by (simp add: delete_write_db_inv)
qed

lemma out_of_range_not_available:
  assumes "reachable s"
    and "find active (raffles s) = Some activeRaffle"
    and "n < 1 \<or> totalTickets activeRaffle < n"
  shows "find (\<lambda>t. ticketNumber t = n \<and> status t = Available \<and>
                    raffleId t = raffle_id activeRaffle) (tickets s) = None"
proof -
  from assms(1) have inv: "db_inv s" unfolding reachable_def by (blast dest: run_db_inv)
  have a: "activeRaffle \<in> set (raffles s)" using assms(2) by (auto dest: find_SomeD)
  have inj: "inj_on raffle_id (set (raffles s))"
    using inv by (simp add: db_inv_def distinct_map)
  have "\<not> (ticketNumber t = n \<and> status t = Available \<and> raffleId t = raffle_id activeRaffle)"
    if t: "t \<in> set (tickets s)" for t
  proof
    assume h: "ticketNumber t = n \<and> status t = Available \<and> raffleId t = raffle_id activeRaffle"
    from inv t obtain q where q: "q \<in> set (raffles s)"
      "raffle_id q = raffleId t" "1 \<le> ticketNumber t" "ticketNumber t \<le> totalTickets q"
      by (auto simp: db_inv_def ticket_inv_def in_range_def list_all_iff list_ex_iff)
    then have "q = activeRaffle" using inj a h by (auto dest: inj_onD)
    then show False using q h assms(3) by auto
  qed
  then show ?thesis by (simp add: find_None_iff)
qed

text \<open>
  C8, as the claim states it, fails: on the raffle of three tickets, a request for
  ticket 4 is answered with \<open>Tickets not available: 4\<close>, the error of a contended
  number. The route has no error of its own for a number out of range.
\<close>

theorem reserve_out_of_range_counterexample:
  "map totalTickets (raffles sc_a) = [3] \<and>
   create_and_pay sc_a (mk_reserve ''a@x.io'' [4] 10 100) 0 =
     (sc_a, Failure (TicketsNotAvailable [4]))"
  by code_simp

text \<open>
  C8, amended. In a reachable state, a call to create-and-pay that reaches the
  reservation loop and asks for a number outside \<open>[1, totalTickets]\<close> of the active
  raffle fails and leaves the state as it was; its error is \<open>Tickets not available\<close>,
  whose list names that number and only requested numbers.
\<close>

theorem reserve_out_of_range:
  assumes reach: "reachable s"
    and valid: "\<not> req_validationErrors req"
    and newmail: "find (\<lambda>u. email u = req_email req) (users s) = None"
    and act: "find active (raffles s) = Some activeRaffle"
    and saves: "req_userSaves req"
    and freshid: "find (\<lambda>u. user_id u = req_newUserId req) (users s) = None"
    and parsed: "req_selectedNumbers req = Some nums"
    and mem: "n \<in> set nums"
    and outside: "n < 1 \<or> totalTickets activeRaffle < n"
  shows "\<exists>unavailableTickets.
           create_and_pay s req now = (s, Failure (TicketsNotAvailable unavailableTickets)) \<and>
           n \<in> set unavailableTickets \<and> set unavailableTickets \<subseteq> set nums"
proof -
  define u where
    "u = snd (reserve_loop (raffle_id activeRaffle) (req_newUserId req) now nums (tickets s) [])"
  have none: "find (\<lambda>t. ticketNumber t = n \<and> status t = Available \<and>
                         raffleId t = raffle_id activeRaffle) (tickets s) = None"
    using reach act outside by (rule out_of_range_not_available)
  have inu: "n \<in> set u"
    unfolding u_def by (rule reserve_loop_unavailable[OF mem none])
  have sub: "set u \<subseteq> set nums"
    unfolding u_def
    using reserve_loop_names[of "raffle_id activeRaffle" "req_newUserId req" now nums
            "tickets s" "[]"]
    by simp
  from inu have "u \<noteq> []" by auto
  then have "create_and_pay s req now = (s, Failure (TicketsNotAvailable u))"
    using valid newmail act saves freshid parsed u_def by (intro create_and_pay_fails) simp_all
  with inu sub show ?thesis by blast
qed

text \<open>The run: after the first buyer's reservation, a second buyer asks for 0 and 2.\<close>

theorem reserve_out_of_range_witness:
  "reachable sc_a1 \<and>
   \<not> req_validationErrors (mk_reserve ''b@x.io'' [0, 2] 11 101) \<and>
   find (\<lambda>u. email u = req_email (mk_reserve ''b@x.io'' [0, 2] 11 101)) (users sc_a1) = None \<and>
   find active (raffles sc_a1) =
     Some \<lparr>raffle_id = 1, totalTickets = 3, soldTickets = 0, reservedTickets = 1, active = True\<rparr> \<and>
   req_userSaves (mk_reserve ''b@x.io'' [0, 2] 11 101) \<and>
   find (\<lambda>u. user_id u = req_newUserId (mk_reserve ''b@x.io'' [0, 2] 11 101)) (users sc_a1) = None \<and>
   req_selectedNumbers (mk_reserve ''b@x.io'' [0, 2] 11 101) = Some [0, 2] \<and>
   (0::int) \<in> set [0, 2] \<and>
   ((0::int) < 1 \<or> (3::int) < 0) \<and>
   (\<exists>unavailableTickets.
      create_and_pay sc_a1 (mk_reserve ''b@x.io'' [0, 2] 11 101) 5 =
        (sc_a1, Failure (TicketsNotAvailable unavailableTickets)) \<and>
      0 \<in> set unavailableTickets \<and> set unavailableTickets \<subseteq> set [0, 2])"
proof -
  let ?r = "\<lparr>raffle_id = 1, totalTickets = 3, soldTickets = 0, reservedTickets = 1, active = True\<rparr>"
  let ?q = "mk_reserve ''b@x.io'' [0, 2] 11 101"
  have "sequential sc_a1"
    unfolding sc_a1_def sc_a_def by (intro sequential.intros)
  then have h0: "reachable sc_a1" by (rule sequential_reachable)
  have h1: "\<not> req_validationErrors ?q" by code_simp
  have h2: "find (\<lambda>u. email u = req_email ?q) (users sc_a1) = None" by code_simp
  have h3: "find active (raffles sc_a1) = Some ?r" by code_simp
  have hs: "req_userSaves ?q" by code_simp
  have h4: "find (\<lambda>u. user_id u = req_newUserId ?q) (users sc_a1) = None" by code_simp
  have h5: "req_selectedNumbers ?q = Some [0, 2]" by code_simp
  have h6: "(0::int) \<in> set [0, 2]" by simp
  have h7: "(0::int) < 1 \<or> totalTickets ?r < 0" by simp
  have h7': "(0::int) < 1 \<or> (3::int) < 0" by simp
  note c = reserve_out_of_range[OF h0 h1 h2 h3 hs h4 h5 h6 h7, of 5]
  show ?thesis
    by (intro conjI h0 h1 h2 h3 hs h4 h5 h6 h7' c)
qed

section \<open>Where the routes and the job depart from the guarded updates\<close>

text \<open>
  C4. Confirm does not sell only the tickets the payment holds. Payment 101 holds
  ticket 1 of raffle 2 for buyer 11; ticket 1 of raffle 1 is reserved by buyer 10 for
  payment 100. Confirming payment 101 sells both, because the filter of its
  \<open>updateMany\<close> names the ticket number and the status only.
\<close>

theorem confirm_sells_foreign_ticket:
  "map (\<lambda>p. (payment_id p, user p, raffle p, selectedNumbers p, payment_status p)) (payments sc_b1) =
     [(100, 10, 1, [1], Pending), (101, 11, 2, [1], Pending)] \<and>
   status_of sc_b1 1 1 = Some Reserved \<and> owner_of sc_b1 1 1 = Some 10 \<and>
   snd (confirm sc_b1 101) = Success \<and>
   status_of (fst (confirm sc_b1 101)) 2 1 = Some Sold \<and>
   status_of (fst (confirm sc_b1 101)) 1 1 = Some Sold \<and>
   owner_of (fst (confirm sc_b1 101)) 1 1 = Some 10"
  by code_simp

text \<open>
  C5. The job does not re-check a ticket when it updates it. At hour 26 the only
  expired reservation is ticket 1 of raffle 2; the update resets every ticket numbered
  1, so the sold ticket 1 of raffle 1 becomes available. In the other run, one
  millisecond after hour 24, ticket 1 of raffle 1 has expired and ticket 1 of raffle 2,
  reserved at hour 1, has not; it is reset all the same.
\<close>

theorem sweep_resets_unexpired_tickets:
  "status_of sc_c1 1 1 = Some Sold \<and>
   filter (expired (26 * hour - ttl)) (tickets sc_c1) =
     [\<lparr>ticketNumber = 1, raffleId = 2, status = Reserved,
       reservedAt = Some hour, userId = Some 11\<rparr>] \<and>
   status_of (sweep sc_c1 (26 * hour)) 1 1 = Some Available \<and>
   owner_of (sweep sc_c1 (26 * hour)) 1 1 = None \<and>
   status_of sc_b1 2 1 = Some Reserved \<and>
   map raffleId (filter (expired (24 * hour + 1 - ttl)) (tickets sc_b1)) = [1] \<and>
   status_of (sweep sc_b1 (24 * hour + 1)) 2 1 = Some Available"
  by code_simp

text \<open>
  C1. The same ticket is sold twice. Ticket 1 of raffle 1 goes from reserved to sold
  when payment 100 is confirmed; the job at hour 26 makes it available again (see C5);
  raffle 1 is activated again, a third buyer reserves the ticket, and confirming
  payment 102 takes it from reserved to sold a second time. Both payments end
  confirmed for ticket 1 of raffle 1.
\<close>

theorem ticket_sold_twice:
  "reachable sc_c5 \<and>
   status_of sc_a1 1 1 = Some Reserved \<and> status_of (fst (confirm sc_a1 100)) 1 1 = Some Sold \<and>
   status_of sc_c2 1 1 = Some Available \<and>
   status_of sc_c4 1 1 = Some Reserved \<and> status_of (fst (confirm sc_c4 102)) 1 1 = Some Sold \<and>
   map (\<lambda>p. (payment_id p, raffle p, selectedNumbers p, payment_status p)) (payments sc_c5) =
     [(100, 1, [1], Confirmed), (101, 2, [1], Pending), (102, 1, [1], Confirmed)]"
proof -
  have "sequential sc_c5"
    unfolding sc_c5_def sc_c4_def sc_c3_def sc_c2_def sc_c1_def sc_c_def sc_a2_def
      sc_a1_def sc_a_def
    by (intro sequential.intros)
  then have r: "reachable sc_c5" by (rule sequential_reachable)
  have e: "status_of sc_a1 1 1 = Some Reserved \<and>
     status_of (fst (confirm sc_a1 100)) 1 1 = Some Sold \<and>
     status_of sc_c2 1 1 = Some Available \<and>
     status_of sc_c4 1 1 = Some Reserved \<and> status_of (fst (confirm sc_c4 102)) 1 1 = Some Sold \<and>
     map (\<lambda>p. (payment_id p, raffle p, selectedNumbers p, payment_status p)) (payments sc_c5) =
       [(100, 1, [1], Confirmed), (101, 2, [1], Pending), (102, 1, [1], Confirmed)]"
    by code_simp
  from r e show ?thesis by (rule conjI)
qed

text \<open>
  C3. The counters do not follow the tickets. After the first reservation they agree;
  the job at hour 25 releases the ticket and writes no raffle, so \<open>reservedTickets\<close>
  stays 1 with no ticket reserved; confirming the stale payment 100 afterwards moves
  \<open>soldTickets\<close> to 1 with no ticket sold.
\<close>

theorem counters_drift:
  "reachable (fst (confirm (sweep sc_a1 (25 * hour)) 100)) \<and>
   counters_consistent sc_a1 \<and>
   \<not> counters_consistent (sweep sc_a1 (25 * hour)) \<and>
   snd (confirm (sweep sc_a1 (25 * hour)) 100) = Success \<and>
   map soldTickets (raffles (fst (confirm (sweep sc_a1 (25 * hour)) 100))) = [1] \<and>
   count_status (fst (confirm (sweep sc_a1 (25 * hour)) 100)) 1 Sold = 0"
proof -
  have "sequential (fst (confirm (sweep sc_a1 (25 * hour)) 100))"
    unfolding sc_a1_def sc_a_def by (intro sequential.intros)
  then have r: "reachable (fst (confirm (sweep sc_a1 (25 * hour)) 100))"
    by (rule sequential_reachable)
  have e: "counters_consistent sc_a1 \<and>
     \<not> counters_consistent (sweep sc_a1 (25 * hour)) \<and>
     snd (confirm (sweep sc_a1 (25 * hour)) 100) = Success \<and>
     map soldTickets (raffles (fst (confirm (sweep sc_a1 (25 * hour)) 100))) = [1] \<and>
     count_status (fst (confirm (sweep sc_a1 (25 * hour)) 100)) 1 Sold = 0"
    by code_simp
  from r e show ?thesis by (rule conjI)
qed

text \<open>
  C6. A ticket reserved at time 0: the job at hour 23 changes nothing; the job at hour
  25 makes the ticket available, and the raffle's \<open>reservedTickets\<close> is 1 before and 1
  after, not decremented.
\<close>

theorem sweep_keeps_counter:
  "status_of sc_a1 1 1 = Some Reserved \<and>
   sweep sc_a1 (23 * hour) = sc_a1 \<and>
   status_of (sweep sc_a1 (25 * hour)) 1 1 = Some Available \<and>
   map reservedTickets (raffles sc_a1) = [1] \<and>
   map reservedTickets (raffles (sweep sc_a1 (25 * hour))) = [1]"
  by code_simp

end
